theory Spec2Isabelle
  imports Main
begin

section \<open>Remote payloads (WooCommerceService)\<close>

text \<open>
  The interfaces \<^verbatim>\<open>WooCommerceOrder\<close> and \<^verbatim>\<open>WooCommerceProduct\<close>. A JavaScript
  \<^verbatim>\<open>number\<close> that holds an identifier or a count is an \<open>int\<close>, a \<^verbatim>\<open>string\<close> is a
  \<open>string\<close>. Field names are the source's; a field called \<^verbatim>\<open>id\<close>, \<^verbatim>\<open>length\<close> or
  \<^verbatim>\<open>type\<close> carries a suffix, since these names are taken in HOL. Records that share
  field names are told apart by qualified names (\<open>WooCommerceOrder.status\<close>).
\<close>

record LineItem =
  product_id :: int
  name :: string
  quantity :: int
  total :: string
  price :: string
  sku :: string

record BillingAddress =
  first_name :: string
  last_name :: string
  address_1 :: string
  address_2 :: string
  city :: string
  state :: string
  postcode :: string
  country :: string
  email :: string
  phone :: string

record ShippingAddress =
  first_name :: string
  last_name :: string
  address_1 :: string
  address_2 :: string
  city :: string
  state :: string
  postcode :: string
  country :: string

record WooCommerceOrder =
  id_o :: int
  number :: string
  order_key :: string
  status :: string
  date_created :: string
  date_modified :: string
  total :: string
  customer_id :: int
  customer_note :: string
  billing :: BillingAddress
  shipping :: ShippingAddress
  line_items :: "LineItem list"

record Dimensions =
  length_d :: string
  width :: string
  height :: string

record Image =
  id_i :: int
  src :: string
  name :: string
  alt :: string

record Category =
  id_c :: int
  name :: string
  slug :: string

record Tag =
  id_t :: int
  name :: string
  slug :: string

text \<open>
  \<^verbatim>\<open>syncProduct\<close> copies thirty-eight fields of the remote product into the local
  document one by one, each under its own name and unchanged. They are grouped in one
  record, \<open>ProductAttrs\<close>, which the remote payload and the local document share; the
  three fields that are not copied verbatim (\<^verbatim>\<open>id\<close> and the two dates) stay apart.
\<close>

record ProductAttrs =
  name :: string
  slug :: string
  type_p :: string
  status :: string
  featured :: bool
  catalog_visibility :: string
  description :: string
  short_description :: string
  sku :: string
  price :: string
  regular_price :: string
  sale_price :: string
  on_sale :: bool
  purchasable :: bool
  total_sales :: int
  virtual :: bool
  downloadable :: bool
  tax_status :: string
  tax_class :: string
  manage_stock :: bool
  stock_quantity :: int
  stock_status :: string
  backorders :: string
  backorders_allowed :: bool
  backordered :: bool
  sold_individually :: bool
  weight :: string
  dimensions :: Dimensions
  shipping_required :: bool
  shipping_taxable :: bool
  shipping_class :: string
  shipping_class_id :: int
  reviews_allowed :: bool
  average_rating :: string
  rating_count :: int
  images :: "Image list"
  categories :: "Category list"
  tags :: "Tag list"

record WooCommerceProduct =
  id_p :: int
  attrs :: ProductAttrs
  date_created :: string
  date_modified :: string

section \<open>Local documents (models/Order, models/Product)\<close>

text \<open>
  A \<^verbatim>\<open>Date\<close> is its time value, an \<open>int\<close> of milliseconds. \<open>OrderData\<close> and
  \<open>ProductData\<close> are the update objects \<^verbatim>\<open>orderData\<close> and \<^verbatim>\<open>productData\<close>, which
  hold every path of the schema. A stored document is these paths together with the
  \<^verbatim>\<open>_id\<close> of the document, the two timestamps that the schema option
  \<^verbatim>\<open>timestamps: true\<close> adds (\<^verbatim>\<open>createdAt\<close>, \<^verbatim>\<open>updatedAt\<close> of \<^verbatim>\<open>IOrder\<close> and
  \<^verbatim>\<open>IProduct\<close>), and the \<^verbatim>\<open>_id\<close>s of its embedded subdocuments. The schemas of
  the billing address, the shipping address and the line item of an order, and of the
  dimensions, the images, the categories and the tags of a product are declared with
  \<^verbatim>\<open>new Schema\<close> and without \<^verbatim>\<open>_id: false\<close>, so the store gives every such
  subdocument an \<^verbatim>\<open>_id\<close> of its own when it casts the update object. These are kept
  beside the paths: \<open>line_item_ids\<close> holds the \<^verbatim>\<open>_id\<close> of each line item, in the
  order of \<^verbatim>\<open>line_items\<close>, and likewise for the other lists.
\<close>

record OrderData =
  wooCommerceId :: int
  number :: string
  order_key :: string
  status :: string
  date_created :: int
  total :: string
  customer_id :: int
  customer_note :: string
  billing :: BillingAddress
  shipping :: ShippingAddress
  line_items :: "LineItem list"
  last_modified :: int

record ProductData =
  wooCommerceId :: int
  attrs :: ProductAttrs
  date_created :: int
  date_modified :: int

record IOrder =
  oid :: nat
  paths :: OrderData
  billing_id :: nat
  shipping_id :: nat
  line_item_ids :: "nat list"
  createdAt :: int
  updatedAt :: int

record IProduct =
  pid :: nat
  paths :: ProductData
  dimensions_id :: nat
  image_ids :: "nat list"
  category_ids :: "nat list"
  tag_ids :: "nat list"
  createdAt :: int
  updatedAt :: int

text \<open>
  The store: the two collections in insertion order, the source of fresh \<^verbatim>\<open>_id\<close>s,
  and the number of upserts made so far, which indexes the host clock.
\<close>

record db =
  orders :: "IOrder list"
  products :: "IProduct list"
  next_id :: nat
  writes :: nat

section \<open>The environment\<close>

text \<open>
  An \<^verbatim>\<open>Error\<close> thrown by a collaborator (axios, mongoose) carries its message. The two
  errors that \<^verbatim>\<open>WooCommerceService\<close> builds itself wrap the error they caught.
\<close>

datatype error =
  Thrown string
  | FailedToFetchOrders error
  | FailedToFetchProduct int error

text \<open>The HTTP requests sent to the remote, in the order they are sent.\<close>

datatype request =
  GetOrders nat nat string
  | GetProduct int
  | GetProbe

text \<open>
  Everything outside the program is an oracle of the environment: what the remote
  answers to a request, what \<^verbatim>\<open>new Date(s)\<close> makes of a string, the host clock at the
  k-th store write, and for each store call whether it throws (a write throws, for one,
  when a date of the update object is an \<^verbatim>\<open>Invalid Date\<close>). The outcome of a call is a
  function of its arguments.
\<close>

record env =
  getOrders :: "nat \<Rightarrow> nat \<Rightarrow> string \<Rightarrow> error + WooCommerceOrder list"
  getProduct :: "int \<Rightarrow> error + WooCommerceProduct"
  getProbe :: "error + nat"
  newDate :: "string \<Rightarrow> int"
  now :: "nat \<Rightarrow> int"
  orderUpsertThrows :: "OrderData \<Rightarrow> error option"
  productFindOneThrows :: "int \<Rightarrow> error option"
  productUpsertThrows :: "ProductData \<Rightarrow> error option"
  orderFindThrows :: "int \<Rightarrow> error option"
  orderDeleteThrows :: "nat \<Rightarrow> error option"
  orderFindOneThrows :: "int \<Rightarrow> error option"
  productDeleteThrows :: "int \<Rightarrow> error option"
  countThrows :: "error option"

section \<open>WooCommerceService\<close>

definition fetchOrders :: "env \<Rightarrow> nat \<Rightarrow> nat \<Rightarrow> string \<Rightarrow> error + WooCommerceOrder list" where
  "fetchOrders env page perPage after =
     (case getOrders env page perPage after of
        Inr data \<Rightarrow> Inr data
      | Inl e \<Rightarrow> Inl (FailedToFetchOrders e))"

definition fetchProduct :: "env \<Rightarrow> int \<Rightarrow> error + WooCommerceProduct" where
  "fetchProduct env productId =
     (case getProduct env productId of
        Inr data \<Rightarrow> Inr data
      | Inl e \<Rightarrow> Inl (FailedToFetchProduct productId e))"

definition testConnection :: "env \<Rightarrow> bool" where
  "testConnection env =
     (case getProbe env of
        Inr code \<Rightarrow> code = 200
      | Inl e \<Rightarrow> False)"

section \<open>The store calls\<close>

fun updateFirst :: "('a \<Rightarrow> bool) \<Rightarrow> ('a \<Rightarrow> 'a) \<Rightarrow> 'a list \<Rightarrow> 'a list" where
  "updateFirst P f [] = []"
| "updateFirst P f (x # xs) = (if P x then f x # xs else x # updateFirst P f xs)"

fun deleteFirst :: "('a \<Rightarrow> bool) \<Rightarrow> 'a list \<Rightarrow> 'a list" where
  "deleteFirst P [] = []"
| "deleteFirst P (x # xs) = (if P x then xs else x # deleteFirst P xs)"

text \<open>
  \<^verbatim>\<open>Order.findOneAndUpdate({wooCommerceId: key}, upd, {upsert: true, new: true})\<close>: the
  first document that matches the filter gets every path of \<open>upd\<close>, a new
  \<^verbatim>\<open>updatedAt\<close> and, as the update object is cast again, a fresh \<^verbatim>\<open>_id\<close> for each
  embedded subdocument; when none matches, a document is inserted with a fresh \<^verbatim>\<open>_id\<close>
  and both timestamps set to the time of the write. \<open>updatedOrder\<close> is the matching
  document after the write, \<open>insertedOrder\<close> the document inserted.
\<close>

definition updatedOrder :: "env \<Rightarrow> OrderData \<Rightarrow> db \<Rightarrow> IOrder \<Rightarrow> IOrder" where
  "updatedOrder env upd st d =
     d\<lparr>IOrder.paths := upd,
       billing_id := next_id st,
       shipping_id := next_id st + 1,
       line_item_ids := [next_id st + 2 ..< next_id st + 2 + length (OrderData.line_items upd)],
       IOrder.updatedAt := now env (writes st)\<rparr>"

definition insertedOrder :: "env \<Rightarrow> OrderData \<Rightarrow> db \<Rightarrow> IOrder" where
  "insertedOrder env upd st =
     \<lparr>oid = next_id st,
      IOrder.paths = upd,
      billing_id = next_id st + 1,
      shipping_id = next_id st + 2,
      line_item_ids = [next_id st + 3 ..< next_id st + 3 + length (OrderData.line_items upd)],
      IOrder.createdAt = now env (writes st),
      IOrder.updatedAt = now env (writes st)\<rparr>"

definition Order_findOneAndUpdate :: "env \<Rightarrow> int \<Rightarrow> OrderData \<Rightarrow> db \<Rightarrow> error + db" where
  "Order_findOneAndUpdate env key upd st =
     (case orderUpsertThrows env upd of
        Some e \<Rightarrow> Inl e
      | None \<Rightarrow>
          Inr (if \<exists>d \<in> set (orders st). OrderData.wooCommerceId (IOrder.paths d) = key
               then st\<lparr>orders :=
                          updateFirst (\<lambda>d. OrderData.wooCommerceId (IOrder.paths d) = key)
                            (updatedOrder env upd st) (orders st),
                        next_id := next_id st + 2 + length (OrderData.line_items upd),
                        writes := Suc (writes st)\<rparr>
               else st\<lparr>orders := orders st @ [insertedOrder env upd st],
                        next_id := next_id st + 3 + length (OrderData.line_items upd),
                        writes := Suc (writes st)\<rparr>))"

definition updatedProduct :: "env \<Rightarrow> ProductData \<Rightarrow> db \<Rightarrow> IProduct \<Rightarrow> IProduct" where
  "updatedProduct env upd st d =
     d\<lparr>IProduct.paths := upd,
       dimensions_id := next_id st,
       image_ids := [next_id st + 1 ..< next_id st + 1 + length (images (ProductData.attrs upd))],
       category_ids :=
         [next_id st + 1 + length (images (ProductData.attrs upd)) ..<
          next_id st + 1 + length (images (ProductData.attrs upd)) +
            length (categories (ProductData.attrs upd))],
       tag_ids :=
         [next_id st + 1 + length (images (ProductData.attrs upd)) +
            length (categories (ProductData.attrs upd)) ..<
          next_id st + 1 + length (images (ProductData.attrs upd)) +
            length (categories (ProductData.attrs upd)) + length (tags (ProductData.attrs upd))],
       IProduct.updatedAt := now env (writes st)\<rparr>"

definition insertedProduct :: "env \<Rightarrow> ProductData \<Rightarrow> db \<Rightarrow> IProduct" where
  "insertedProduct env upd st =
     \<lparr>pid = next_id st,
      IProduct.paths = upd,
      dimensions_id = next_id st + 1,
      image_ids = [next_id st + 2 ..< next_id st + 2 + length (images (ProductData.attrs upd))],
      category_ids =
        [next_id st + 2 + length (images (ProductData.attrs upd)) ..<
         next_id st + 2 + length (images (ProductData.attrs upd)) +
           length (categories (ProductData.attrs upd))],
      tag_ids =
        [next_id st + 2 + length (images (ProductData.attrs upd)) +
           length (categories (ProductData.attrs upd)) ..<
         next_id st + 2 + length (images (ProductData.attrs upd)) +
           length (categories (ProductData.attrs upd)) + length (tags (ProductData.attrs upd))],
      IProduct.createdAt = now env (writes st),
      IProduct.updatedAt = now env (writes st)\<rparr>"

definition Product_findOneAndUpdate :: "env \<Rightarrow> int \<Rightarrow> ProductData \<Rightarrow> db \<Rightarrow> error + db" where
  "Product_findOneAndUpdate env key upd st =
     (case productUpsertThrows env upd of
        Some e \<Rightarrow> Inl e
      | None \<Rightarrow>
          Inr (if \<exists>d \<in> set (products st). ProductData.wooCommerceId (IProduct.paths d) = key
               then st\<lparr>products :=
                          updateFirst (\<lambda>d. ProductData.wooCommerceId (IProduct.paths d) = key)
                            (updatedProduct env upd st) (products st),
                        next_id :=
                          next_id st + 1 + length (images (ProductData.attrs upd)) +
                            length (categories (ProductData.attrs upd)) +
                            length (tags (ProductData.attrs upd)),
                        writes := Suc (writes st)\<rparr>
               else st\<lparr>products := products st @ [insertedProduct env upd st],
                        next_id :=
                          next_id st + 2 + length (images (ProductData.attrs upd)) +
                            length (categories (ProductData.attrs upd)) +
                            length (tags (ProductData.attrs upd)),
                        writes := Suc (writes st)\<rparr>))"

section \<open>SyncService: the sync pass\<close>

definition productData :: "env \<Rightarrow> WooCommerceProduct \<Rightarrow> ProductData" where
  "productData env wooProduct =
     \<lparr>ProductData.wooCommerceId = id_p wooProduct,
      ProductData.attrs = WooCommerceProduct.attrs wooProduct,
      ProductData.date_created = newDate env (WooCommerceProduct.date_created wooProduct),
      ProductData.date_modified = newDate env (WooCommerceProduct.date_modified wooProduct)\<rparr>"

definition syncProduct :: "env \<Rightarrow> WooCommerceProduct \<Rightarrow> db \<Rightarrow> error + db" where
  "syncProduct env wooProduct st =
     Product_findOneAndUpdate env (id_p wooProduct) (productData env wooProduct) st"

text \<open>\<^verbatim>\<open>[...new Set(xs)]\<close>: the elements of \<open>xs\<close> once each, in order of first occurrence.\<close>

definition newSet :: "'a list \<Rightarrow> 'a list" where
  "newSet xs = rev (remdups (rev xs))"

text \<open>
  The body of the loop of \<^verbatim>\<open>syncProductsFromOrder\<close> for one identifier. The whole
  body is inside \<^verbatim>\<open>try\<close>; the \<^verbatim>\<open>catch\<close> logs and goes on. It returns the store and
  the requests it sent.
\<close>

definition backfill :: "env \<Rightarrow> int \<Rightarrow> db \<Rightarrow> db \<times> request list" where
  "backfill env productId st =
     (case productFindOneThrows env productId of
        Some e \<Rightarrow> (st, [])
      | None \<Rightarrow>
          if \<exists>d \<in> set (products st). ProductData.wooCommerceId (IProduct.paths d) = productId
          then (st, [])
          else (case fetchProduct env productId of
                  Inl e \<Rightarrow> (st, [GetProduct productId])
                | Inr wooProduct \<Rightarrow>
                    (case syncProduct env wooProduct st of
                       Inl e \<Rightarrow> (st, [GetProduct productId])
                     | Inr st' \<Rightarrow> (st', [GetProduct productId]))))"

fun backfillAll :: "env \<Rightarrow> int list \<Rightarrow> db \<Rightarrow> db \<times> request list" where
  "backfillAll env [] st = (st, [])"
| "backfillAll env (productId # productIds) st =
     (case backfill env productId st of
        (st1, rs1) \<Rightarrow>
          (case backfillAll env productIds st1 of
             (st2, rs2) \<Rightarrow> (st2, rs1 @ rs2)))"

definition syncProductsFromOrder :: "env \<Rightarrow> WooCommerceOrder \<Rightarrow> db \<Rightarrow> db \<times> request list" where
  "syncProductsFromOrder env wooOrder st =
     backfillAll env (newSet (map product_id (WooCommerceOrder.line_items wooOrder))) st"

definition orderData :: "env \<Rightarrow> WooCommerceOrder \<Rightarrow> OrderData" where
  "orderData env wooOrder =
     \<lparr>OrderData.wooCommerceId = id_o wooOrder,
      OrderData.number = WooCommerceOrder.number wooOrder,
      OrderData.order_key = WooCommerceOrder.order_key wooOrder,
      OrderData.status = WooCommerceOrder.status wooOrder,
      OrderData.date_created = newDate env (WooCommerceOrder.date_created wooOrder),
      OrderData.total = WooCommerceOrder.total wooOrder,
      OrderData.customer_id = WooCommerceOrder.customer_id wooOrder,
      OrderData.customer_note =
        (if WooCommerceOrder.customer_note wooOrder = [] then []
         else WooCommerceOrder.customer_note wooOrder),
      OrderData.billing = WooCommerceOrder.billing wooOrder,
      OrderData.shipping = WooCommerceOrder.shipping wooOrder,
      OrderData.line_items = WooCommerceOrder.line_items wooOrder,
      OrderData.last_modified = newDate env (WooCommerceOrder.date_modified wooOrder)\<rparr>"

text \<open>
  \<^verbatim>\<open>syncOrder\<close>: \<open>Some e\<close> is the error it throws. The upsert comes first; when it
  throws, the products of the order are not looked at.
\<close>

definition syncOrder :: "env \<Rightarrow> WooCommerceOrder \<Rightarrow> db \<Rightarrow> error option \<times> db \<times> request list" where
  "syncOrder env wooOrder st =
     (case Order_findOneAndUpdate env (id_o wooOrder) (orderData env wooOrder) st of
        Inl e \<Rightarrow> (Some e, st, [])
      | Inr st1 \<Rightarrow>
          (case syncProductsFromOrder env wooOrder st1 of
             (st2, rs) \<Rightarrow> (None, st2, rs)))"

text \<open>
  The \<^verbatim>\<open>for\<close> loop of \<^verbatim>\<open>syncOrders\<close> over one page, on the counters \<^verbatim>\<open>synced\<close> and
  \<^verbatim>\<open>errors\<close>, the store and the requests sent so far.
\<close>

fun syncPage :: "env \<Rightarrow> WooCommerceOrder list \<Rightarrow> nat \<times> nat \<times> db \<times> request list
    \<Rightarrow> nat \<times> nat \<times> db \<times> request list" where
  "syncPage env [] acc = acc"
| "syncPage env (wooOrder # rest) (synced, errors, st, rs) =
     (case syncOrder env wooOrder st of
        (None, st', rs') \<Rightarrow> syncPage env rest (Suc synced, errors, st', rs @ rs')
      | (Some e, st', rs') \<Rightarrow> syncPage env rest (synced, Suc errors, st', rs @ rs'))"

definition perPage :: nat where
  "perPage = 100"

text \<open>
  The \<^verbatim>\<open>while (true)\<close> loop of \<^verbatim>\<open>syncOrders\<close>. It may run forever, so the result is
  an option: \<open>None\<close> is a pass that never returns. A pass that returns gives what
  it returned or threw, the store it left and the requests it sent.
\<close>

partial_function (option) syncLoop ::
    "env \<Rightarrow> string \<Rightarrow> nat \<Rightarrow> nat \<Rightarrow> nat \<Rightarrow> db \<Rightarrow> request list
      \<Rightarrow> ((error + nat \<times> nat) \<times> db \<times> request list) option" where
  "syncLoop env afterDate page synced errors st rs =
     (case fetchOrders env page perPage afterDate of
        Inl e \<Rightarrow> Some (Inl e, st, rs @ [GetOrders page perPage afterDate])
      | Inr batch \<Rightarrow>
          if length batch = 0
          then Some (Inr (synced, errors), st, rs @ [GetOrders page perPage afterDate])
          else (case syncPage env batch (synced, errors, st, rs @ [GetOrders page perPage afterDate]) of
                  (synced', errors', st', rs') \<Rightarrow>
                    if length batch < perPage
                    then Some (Inr (synced', errors'), st', rs')
                    else syncLoop env afterDate (page + 1) synced' errors' st' rs'))"

text \<open>
  \<^verbatim>\<open>syncOrders\<close>. \<open>afterDate\<close> is the ISO string of the host date 240 days back; it is
  only handed to the remote, so it is a parameter.
\<close>

definition syncOrders :: "env \<Rightarrow> string \<Rightarrow> db \<Rightarrow> ((error + nat \<times> nat) \<times> db \<times> request list) option" where
  "syncOrders env afterDate st = syncLoop env afterDate 1 0 0 st []"

section \<open>SyncService: the retention pass\<close>

text \<open>
  \<^verbatim>\<open>productIdsToCheck\<close> is a \<^verbatim>\<open>Set<number>\<close>: its elements in insertion order, each
  once. \<open>setAdd\<close> is \<^verbatim>\<open>Set.add\<close>, and \<^verbatim>\<open>Array.from\<close> reads the list as it is.
\<close>

definition setAdd :: "'a list \<Rightarrow> 'a \<Rightarrow> 'a list" where
  "setAdd xs x = (if x \<in> set xs then xs else xs @ [x])"

text \<open>
  The first loop of \<^verbatim>\<open>cleanupOldOrders\<close>, on \<^verbatim>\<open>deletedOrders\<close>,
  \<^verbatim>\<open>productIdsToCheck\<close> and the store. The identifiers of an order are collected
  before \<^verbatim>\<open>findByIdAndDelete\<close> is tried, so they stay collected when it throws.
\<close>

fun deleteOrders :: "env \<Rightarrow> IOrder list \<Rightarrow> nat \<times> int list \<times> db \<Rightarrow> nat \<times> int list \<times> db" where
  "deleteOrders env [] acc = acc"
| "deleteOrders env (order # rest) (deletedOrders, productIdsToCheck, st) =
     (case orderDeleteThrows env (oid order) of
        Some e \<Rightarrow>
          deleteOrders env rest
            (deletedOrders,
             foldl setAdd productIdsToCheck (map product_id (OrderData.line_items (IOrder.paths order))),
             st)
      | None \<Rightarrow>
          deleteOrders env rest
            (Suc deletedOrders,
             foldl setAdd productIdsToCheck (map product_id (OrderData.line_items (IOrder.paths order))),
             st\<lparr>orders := deleteFirst (\<lambda>d. oid d = oid order) (orders st)\<rparr>))"

text \<open>\<^verbatim>\<open>Order.findOne({'line_items.product_id': productId})\<close> finds a document.\<close>

definition orderWithProduct :: "db \<Rightarrow> int \<Rightarrow> bool" where
  "orderWithProduct st productId =
     (\<exists>d \<in> set (orders st). \<exists>item \<in> set (OrderData.line_items (IOrder.paths d)).
        product_id item = productId)"

fun cleanupLoop :: "env \<Rightarrow> int list \<Rightarrow> nat \<times> db \<Rightarrow> nat \<times> db" where
  "cleanupLoop env [] acc = acc"
| "cleanupLoop env (productId # rest) (deletedProducts, st) =
     (case orderFindOneThrows env productId of
        Some e \<Rightarrow> cleanupLoop env rest (deletedProducts, st)
      | None \<Rightarrow>
          if orderWithProduct st productId
          then cleanupLoop env rest (deletedProducts, st)
          else (case productDeleteThrows env productId of
                  Some e \<Rightarrow> cleanupLoop env rest (deletedProducts, st)
                | None \<Rightarrow>
                    cleanupLoop env rest
                      (Suc deletedProducts,
                       st\<lparr>products :=
                            deleteFirst (\<lambda>d. ProductData.wooCommerceId (IProduct.paths d) = productId)
                              (products st)\<rparr>)))"

definition cleanupUnusedProducts :: "env \<Rightarrow> int list \<Rightarrow> db \<Rightarrow> nat \<times> db" where
  "cleanupUnusedProducts env productIds st = cleanupLoop env productIds (0, st)"

definition ordersToDelete :: "int \<Rightarrow> db \<Rightarrow> IOrder list" where
  "ordersToDelete threeMonthsAgo st =
     filter (\<lambda>d. OrderData.last_modified (IOrder.paths d) < threeMonthsAgo) (orders st)"

text \<open>
  \<^verbatim>\<open>cleanupOldOrders\<close>. \<open>threeMonthsAgo\<close> is the host date three calendar months
  back, a parameter. Only \<^verbatim>\<open>Order.find\<close> can make the pass throw.
\<close>

definition cleanupOldOrders :: "env \<Rightarrow> int \<Rightarrow> db \<Rightarrow> (error + nat \<times> nat) \<times> db" where
  "cleanupOldOrders env threeMonthsAgo st =
     (case orderFindThrows env threeMonthsAgo of
        Some e \<Rightarrow> (Inl e, st)
      | None \<Rightarrow>
          (case deleteOrders env (ordersToDelete threeMonthsAgo st) (0, [], st) of
             (deletedOrders, productIdsToCheck, st1) \<Rightarrow>
               (case cleanupUnusedProducts env productIdsToCheck st1 of
                  (deletedProducts, st2) \<Rightarrow> (Inr (deletedOrders, deletedProducts), st2))))"

section \<open>SyncService: connection test and statistics\<close>

definition SyncService_testConnection :: "env \<Rightarrow> bool" where
  "SyncService_testConnection env = testConnection env"

definition getSyncStats :: "env \<Rightarrow> db \<Rightarrow> error + nat \<times> nat \<times> int option" where
  "getSyncStats env st =
     (case countThrows env of
        Some e \<Rightarrow> Inl e
      | None \<Rightarrow>
          Inr (length (orders st), length (products st),
               (case map IOrder.updatedAt (orders st) of
                  [] \<Rightarrow> None
                | t # ts \<Rightarrow> Some (fold max ts t))))"

section \<open>SyncScheduler\<close>

text \<open>
  What the scheduler writes to its log: the level, the message and the object logged
  with it (durations and wall-clock strings left out).
\<close>

datatype level = LevelInfo | LevelError

datatype meta =
  NoMeta
  | SyncResult nat nat
  | CleanupResult nat nat
  | SyncStats nat nat "int option"
  | Cause error

datatype logEntry = Log level string meta

text \<open>
  \<^verbatim>\<open>runDailySync\<close> returns nothing; the model returns the store it leaves, the
  requests sent and the entries logged, or \<open>None\<close> when the sync pass never returns.
\<close>

definition runDailySync :: "env \<Rightarrow> string \<Rightarrow> db \<Rightarrow> (db \<times> request list \<times> logEntry list) option" where
  "runDailySync env afterDate st =
     (if \<not> SyncService_testConnection env
      then Some (st, [GetProbe],
                 [Log LevelInfo ''Starting daily sync process...'' NoMeta,
                  Log LevelError ''WooCommerce connection failed, skipping sync'' NoMeta])
      else (case syncOrders env afterDate st of
              None \<Rightarrow> None
            | Some (Inl e, st', rs) \<Rightarrow>
                Some (st', GetProbe # rs,
                      [Log LevelInfo ''Starting daily sync process...'' NoMeta,
                       Log LevelError ''Daily sync failed:'' (Cause e)])
            | Some (Inr (synced, errors), st', rs) \<Rightarrow>
                (case getSyncStats env st' of
                   Inl e \<Rightarrow>
                     Some (st', GetProbe # rs,
                           [Log LevelInfo ''Starting daily sync process...'' NoMeta,
                            Log LevelInfo ''Daily sync completed successfully'' (SyncResult synced errors),
                            Log LevelError ''Daily sync failed:'' (Cause e)])
                 | Inr (totalOrders, totalProducts, lastSyncDate) \<Rightarrow>
                     Some (st', GetProbe # rs,
                           [Log LevelInfo ''Starting daily sync process...'' NoMeta,
                            Log LevelInfo ''Daily sync completed successfully'' (SyncResult synced errors),
                            Log LevelInfo ''Sync statistics''
                              (SyncStats totalOrders totalProducts lastSyncDate)]))))"

definition runCleanup :: "env \<Rightarrow> int \<Rightarrow> db \<Rightarrow> db \<times> logEntry list" where
  "runCleanup env threeMonthsAgo st =
     (case cleanupOldOrders env threeMonthsAgo st of
        (Inl e, st') \<Rightarrow>
          (st', [Log LevelInfo ''Starting cleanup process...'' NoMeta,
                 Log LevelError ''Cleanup failed:'' (Cause e)])
      | (Inr (deletedOrders, deletedProducts), st') \<Rightarrow>
          (st', [Log LevelInfo ''Starting cleanup process...'' NoMeta,
                 Log LevelInfo ''Cleanup completed successfully''
                   (CleanupResult deletedOrders deletedProducts)]))"

text \<open>
  The manual triggers return what the pass returns or throws, with the store, the
  requests and the one entry they log.
\<close>

definition triggerManualSync ::
    "env \<Rightarrow> string \<Rightarrow> db \<Rightarrow> ((error + nat \<times> nat) \<times> db \<times> request list \<times> logEntry list) option" where
  "triggerManualSync env afterDate st =
     (case syncOrders env afterDate st of
        None \<Rightarrow> None
      | Some (r, st', rs) \<Rightarrow> Some (r, st', rs, [Log LevelInfo ''Manual sync triggered'' NoMeta]))"

definition triggerManualCleanup ::
    "env \<Rightarrow> int \<Rightarrow> db \<Rightarrow> (error + nat \<times> nat) \<times> db \<times> request list \<times> logEntry list" where
  "triggerManualCleanup env threeMonthsAgo st =
     (case cleanupOldOrders env threeMonthsAgo st of
        (r, st') \<Rightarrow> (r, st', [], [Log LevelInfo ''Manual cleanup triggered'' NoMeta]))"

section \<open>Notions used in the statements\<close>

text \<open>The upsert of a remote order does not throw.\<close>

definition upsertOk :: "env \<Rightarrow> WooCommerceOrder \<Rightarrow> bool" where
  "upsertOk env w = (orderUpsertThrows env (orderData env w) = None)"

text \<open>
  The store after \<^verbatim>\<open>syncOrder\<close> has been run on each record of a list in turn,
  thrown errors caught as the loop of \<^verbatim>\<open>syncOrders\<close> catches them.
\<close>

fun applyOrders :: "env \<Rightarrow> WooCommerceOrder list \<Rightarrow> db \<Rightarrow> db" where
  "applyOrders env [] st = st"
| "applyOrders env (w # ws) st = applyOrders env ws (fst (snd (syncOrder env w st)))"

text \<open>The kind of a request.\<close>

fun isGetOrders :: "request \<Rightarrow> bool" where
  "isGetOrders (GetOrders page n a) = True"
| "isGetOrders r = False"

fun isGetProduct :: "request \<Rightarrow> bool" where
  "isGetProduct (GetProduct i) = True"
| "isGetProduct r = False"

text \<open>
  The loop of \<^verbatim>\<open>syncOrders\<close> run over a list of pages that the remote served, the
  first of them as page \<open>p\<close>.
\<close>

fun syncPages :: "env \<Rightarrow> string \<Rightarrow> nat \<Rightarrow> WooCommerceOrder list list
    \<Rightarrow> nat \<times> nat \<times> db \<times> request list \<Rightarrow> nat \<times> nat \<times> db \<times> request list" where
  "syncPages env a p [] acc = acc"
| "syncPages env a p (b # bs) (s, e, st, rs) =
     syncPages env a (Suc p) bs (syncPage env b (s, e, st, rs @ [GetOrders p perPage a]))"

text \<open>
  From page \<open>p\<close> on the remote serves the pages \<open>pgs\<close>, each of at least
  \<^verbatim>\<open>perPage\<close> records; \<open>walk\<close>: and it answers the request for the next page with
  \<open>fin\<close>, a failure or a page of fewer records, which ends the pass. \<open>fetched\<close> are
  the records the pass then processes.
\<close>

definition fullPages :: "env \<Rightarrow> string \<Rightarrow> nat \<Rightarrow> WooCommerceOrder list list \<Rightarrow> bool" where
  "fullPages env a p pgs =
     (\<forall>i < length pgs. getOrders env (p + i) perPage a = Inr (pgs ! i) \<and> perPage \<le> length (pgs ! i))"

definition walk :: "env \<Rightarrow> string \<Rightarrow> nat \<Rightarrow> WooCommerceOrder list list \<Rightarrow> error + WooCommerceOrder list \<Rightarrow> bool" where
  "walk env a p pgs fin =
     (fullPages env a p pgs \<and> getOrders env (p + length pgs) perPage a = fin \<and>
      (case fin of Inl c \<Rightarrow> True | Inr b \<Rightarrow> length b < perPage))"

definition fetched :: "WooCommerceOrder list list \<Rightarrow> error + WooCommerceOrder list \<Rightarrow> WooCommerceOrder list" where
  "fetched pgs fin = concat pgs @ (case fin of Inl c \<Rightarrow> [] | Inr b \<Rightarrow> b)"

text \<open>The remote identifiers of the documents of each collection, in order.\<close>

definition orderIds :: "db \<Rightarrow> int list" where
  "orderIds st = map (\<lambda>d. OrderData.wooCommerceId (IOrder.paths d)) (orders st)"

definition productIds :: "db \<Rightarrow> int list" where
  "productIds st = map (\<lambda>d. ProductData.wooCommerceId (IProduct.paths d)) (products st)"

text \<open>
  A pass over the records \<open>recs\<close> writes the order with the identifier \<open>k\<close>: one of
  the records carries \<open>k\<close> and its upsert does not throw.
\<close>

definition rewritten :: "env \<Rightarrow> WooCommerceOrder list \<Rightarrow> int \<Rightarrow> bool" where
  "rewritten env recs k = (\<exists>w \<in> set recs. upsertOk env w \<and> id_o w = k)"

text \<open>
  The order document \<open>d2\<close> is the document \<open>d1\<close> written again by a pass that took the
  store from \<open>st1\<close> to \<open>st2\<close>: the \<^verbatim>\<open>_id\<close>, every path and \<^verbatim>\<open>createdAt\<close> are those
  of \<open>d1\<close>; \<^verbatim>\<open>updatedAt\<close> is the time of one of the writes of that pass; the
  \<^verbatim>\<open>_id\<close>s of the embedded subdocuments are \<^verbatim>\<open>_id\<close>s that the pass generated, one for
  each line item.
\<close>

definition restamped :: "env \<Rightarrow> db \<Rightarrow> db \<Rightarrow> IOrder \<Rightarrow> IOrder \<Rightarrow> bool" where
  "restamped env st1 st2 d1 d2 =
     (oid d2 = oid d1 \<and> IOrder.paths d2 = IOrder.paths d1 \<and>
      IOrder.createdAt d2 = IOrder.createdAt d1 \<and>
      (\<exists>k. writes st1 \<le> k \<and> k < writes st2 \<and> IOrder.updatedAt d2 = now env k) \<and>
      next_id st1 \<le> billing_id d2 \<and> billing_id d2 < next_id st2 \<and>
      next_id st1 \<le> shipping_id d2 \<and> shipping_id d2 < next_id st2 \<and>
      list_all (\<lambda>j. next_id st1 \<le> j \<and> j < next_id st2) (line_item_ids d2) \<and>
      length (line_item_ids d2) = length (OrderData.line_items (IOrder.paths d2)))"

text \<open>
  The data of the last record of a list that carries the identifier \<open>k\<close> and whose
  upsert does not throw.
\<close>

definition latest :: "env \<Rightarrow> WooCommerceOrder list \<Rightarrow> int \<Rightarrow> OrderData option" where
  "latest env recs k =
     (if filter (\<lambda>w. upsertOk env w \<and> id_o w = k) recs = [] then None
      else Some (orderData env (last (filter (\<lambda>w. upsertOk env w \<and> id_o w = k) recs))))"

text \<open>The backfill of an absent product \<open>i\<close> fails: lookup, request or write throws.\<close>

definition doomed :: "env \<Rightarrow> int \<Rightarrow> bool" where
  "doomed env i =
     (productFindOneThrows env i \<noteq> None \<or>
      (case getProduct env i of
         Inl c \<Rightarrow> True
       | Inr w \<Rightarrow> productUpsertThrows env (productData env w) \<noteq> None))"

section \<open>Concrete data for the examples\<close>

definition sampleBilling :: BillingAddress where
  "sampleBilling =
     \<lparr>BillingAddress.first_name = ''Ada'', BillingAddress.last_name = ''Lee'',
      BillingAddress.address_1 = ''1 Main St'', BillingAddress.address_2 = [],
      BillingAddress.city = ''Pokhara'', BillingAddress.state = ''GA'',
      BillingAddress.postcode = ''33700'', BillingAddress.country = ''NP'',
      email = ''ada@example.org'', phone = []\<rparr>"

definition sampleShipping :: ShippingAddress where
  "sampleShipping =
     \<lparr>ShippingAddress.first_name = ''Ada'', ShippingAddress.last_name = ''Lee'',
      ShippingAddress.address_1 = ''1 Main St'', ShippingAddress.address_2 = [],
      ShippingAddress.city = ''Pokhara'', ShippingAddress.state = ''GA'',
      ShippingAddress.postcode = ''33700'', ShippingAddress.country = ''NP''\<rparr>"

definition sampleItem :: "int \<Rightarrow> LineItem" where
  "sampleItem i =
     \<lparr>product_id = i, LineItem.name = ''item'', quantity = 1, LineItem.total = ''10.00'',
      LineItem.price = ''10.00'', LineItem.sku = []\<rparr>"

text \<open>The remote order \<open>k\<close> with one line item for each product identifier of \<open>is\<close>.\<close>

definition sampleOrder :: "int \<Rightarrow> int list \<Rightarrow> WooCommerceOrder" where
  "sampleOrder k is =
     \<lparr>id_o = k, WooCommerceOrder.number = ''n'', WooCommerceOrder.order_key = ''wc_order'',
      WooCommerceOrder.status = ''completed'',
      WooCommerceOrder.date_created = ''2025-01-01T00:00:00Z'',
      WooCommerceOrder.date_modified = ''2025-01-02T00:00:00Z'',
      WooCommerceOrder.total = ''10.00'',
      WooCommerceOrder.customer_id = 1, WooCommerceOrder.customer_note = [],
      WooCommerceOrder.billing = sampleBilling, WooCommerceOrder.shipping = sampleShipping,
      WooCommerceOrder.line_items = map sampleItem is\<rparr>"

definition sampleAttrs :: ProductAttrs where
  "sampleAttrs =
     \<lparr>ProductAttrs.name = ''Mug'', ProductAttrs.slug = ''mug'', type_p = ''simple'',
      ProductAttrs.status = ''publish'', featured = False, catalog_visibility = ''visible'',
      description = [], short_description = [], ProductAttrs.sku = [],
      ProductAttrs.price = ''10.00'', regular_price = ''10.00'', sale_price = [],
      on_sale = False, purchasable = True, total_sales = 0, virtual = False,
      downloadable = False, tax_status = ''taxable'', tax_class = [], manage_stock = False,
      stock_quantity = 0, stock_status = ''instock'', backorders = ''no'',
      backorders_allowed = False, backordered = False, sold_individually = False,
      weight = [], dimensions = \<lparr>length_d = [], width = [], height = []\<rparr>,
      shipping_required = True, shipping_taxable = True, shipping_class = [],
      shipping_class_id = 0, reviews_allowed = True, average_rating = ''0'',
      rating_count = 0, images = [], categories = [], tags = []\<rparr>"

definition sampleProduct :: "int \<Rightarrow> WooCommerceProduct" where
  "sampleProduct i =
     \<lparr>id_p = i, WooCommerceProduct.attrs = sampleAttrs,
      WooCommerceProduct.date_created = ''2025-01-01T00:00:00Z'',
      WooCommerceProduct.date_modified = ''2025-01-01T00:00:00Z''\<rparr>"

definition emptyDb :: db where
  "emptyDb = \<lparr>orders = [], products = [], next_id = 0, writes = 0\<rparr>"

text \<open>
  The dates of the examples. \<^verbatim>\<open>new Date\<close> parses the two ISO strings that the sample
  records carry to their time values; every other string stands for one that does not
  parse. An \<^verbatim>\<open>Invalid Date\<close> has no time value: \<open>invalidDate\<close>, which lies outside the
  range of time values (at most 8640000000000000 in size), stands for it, and a write of
  an update object that holds it throws, as the cast of an \<^verbatim>\<open>Invalid Date\<close> does.
\<close>

definition invalidDate :: int where
  "invalidDate = 8640000000000001"

definition sampleNewDate :: "string \<Rightarrow> int" where
  "sampleNewDate s =
     (if s = ''2025-01-01T00:00:00Z'' then 1735689600000
      else if s = ''2025-01-02T00:00:00Z'' then 1735776000000
      else invalidDate)"

text \<open>
  An environment in which nothing fails but the write of an \<^verbatim>\<open>Invalid Date\<close>: the
  remote serves the pages \<open>pages\<close> and has every product, the probe answers 200, the
  k-th write happens at time k.
\<close>

definition quietEnv :: "(nat \<Rightarrow> WooCommerceOrder list) \<Rightarrow> env" where
  "quietEnv pages =
     \<lparr>getOrders = (\<lambda>p n a. Inr (pages p)),
      getProduct = (\<lambda>i. Inr (sampleProduct i)),
      getProbe = Inr 200,
      newDate = sampleNewDate,
      now = (\<lambda>k. int k),
      orderUpsertThrows =
        (\<lambda>u. if OrderData.date_created u = invalidDate \<or> last_modified u = invalidDate
             then Some (Thrown ''CastError'') else None),
      productFindOneThrows = (\<lambda>i. None),
      productUpsertThrows =
        (\<lambda>u. if ProductData.date_created u = invalidDate \<or> ProductData.date_modified u = invalidDate
             then Some (Thrown ''CastError'') else None),
      orderFindThrows = (\<lambda>t. None),
      orderDeleteThrows = (\<lambda>k. None),
      orderFindOneThrows = (\<lambda>i. None),
      productDeleteThrows = (\<lambda>i. None),
      countThrows = None\<rparr>"

definition noPages :: "nat \<Rightarrow> WooCommerceOrder list" where
  "noPages p = []"

text \<open>One page holding order 1, which has one line item, for product 7.\<close>

definition onePage :: "nat \<Rightarrow> WooCommerceOrder list" where
  "onePage p = (if p = 1 then [sampleOrder 1 [7]] else [])"

text \<open>The remote is down for the probe.\<close>

definition downEnv :: env where
  "downEnv = (quietEnv noPages)\<lparr>getProbe := Inl (Thrown ''ECONNREFUSED'')\<rparr>"

text \<open>The remote serves order 1 and fails every request for a product.\<close>

definition noCatalogEnv :: env where
  "noCatalogEnv = (quietEnv onePage)\<lparr>getProduct := (\<lambda>i. Inl (Thrown ''timeout''))\<rparr>"

text \<open>Every page is a full page of one hundred records: the stream never ends.\<close>

definition endlessPages :: "nat \<Rightarrow> WooCommerceOrder list" where
  "endlessPages p = replicate 100 (sampleOrder 1 [])"

text \<open>A stream of 150 records: a page of 100, then a page of 50.\<close>

definition twoPages :: "nat \<Rightarrow> WooCommerceOrder list" where
  "twoPages p =
     (if p = 1 then replicate 100 (sampleOrder 1 [])
      else if p = 2 then replicate 50 (sampleOrder 2 [])
      else [])"

text \<open>One page of three orders; the store refuses to write order 2.\<close>

definition threeOrders :: "nat \<Rightarrow> WooCommerceOrder list" where
  "threeOrders p = (if p = 1 then [sampleOrder 1 [], sampleOrder 2 [], sampleOrder 3 []] else [])"

definition secondFailsEnv :: env where
  "secondFailsEnv =
     (quietEnv threeOrders)\<lparr>orderUpsertThrows :=
        (\<lambda>u. if OrderData.wooCommerceId u = 2 then Some (Thrown ''write failed'')
              else orderUpsertThrows (quietEnv threeOrders) u)\<rparr>"

text \<open>A full page, then the remote fails.\<close>

definition brokenAfterOne :: env where
  "brokenAfterOne =
     (quietEnv endlessPages)\<lparr>getOrders :=
        (\<lambda>p n a. if p = 1 then Inr (endlessPages p) else Inl (Thrown ''ETIMEDOUT''))\<rparr>"

text \<open>
  A sequence of sync passes, each in its own environment and with its own
  \<open>afterDate\<close>, run one after the other on the store; \<open>None\<close> when one of them
  never returns.
\<close>

fun syncPasses :: "(env \<times> string) list \<Rightarrow> db \<Rightarrow> db option" where
  "syncPasses [] st = Some st"
| "syncPasses ((env, a) # ps) st =
     (case syncOrders env a st of
        None \<Rightarrow> None
      | Some (r, st', rs) \<Rightarrow> syncPasses ps st')"

text \<open>The documents of the product collection that carry the remote identifier \<open>k\<close>.\<close>

definition productsWithId :: "db \<Rightarrow> int \<Rightarrow> IProduct list" where
  "productsWithId st k = filter (\<lambda>d. ProductData.wooCommerceId (IProduct.paths d) = k) (products st)"

text \<open>
  The product identifiers in the line items of the orders that the retention pass
  selects: the candidates of its second phase.
\<close>

definition candidateIds :: "int \<Rightarrow> db \<Rightarrow> int set" where
  "candidateIds threeMonthsAgo st =
     (\<Union>d \<in> set (ordersToDelete threeMonthsAgo st).
        product_id ` set (OrderData.line_items (IOrder.paths d)))"

text \<open>
  A store for the retention examples: order 1, last modified at time 10, with a line
  item for product 7; order 2, last modified at time 500, with a line item for
  product 9; the products 7, 8 and 9.
\<close>

definition sampleOrderDoc :: "nat \<Rightarrow> int \<Rightarrow> int list \<Rightarrow> int \<Rightarrow> IOrder" where
  "sampleOrderDoc n k is t =
     \<lparr>oid = n,
      IOrder.paths = (orderData (quietEnv noPages) (sampleOrder k is))\<lparr>last_modified := t\<rparr>,
      billing_id = n + 100, shipping_id = n + 200,
      line_item_ids = [n + 300 ..< n + 300 + length is],
      IOrder.createdAt = 0, IOrder.updatedAt = 0\<rparr>"

definition sampleProductDoc :: "nat \<Rightarrow> int \<Rightarrow> IProduct" where
  "sampleProductDoc n k =
     \<lparr>pid = n, IProduct.paths = productData (quietEnv noPages) (sampleProduct k),
      dimensions_id = n + 100, image_ids = [], category_ids = [], tag_ids = [],
      IProduct.createdAt = 0, IProduct.updatedAt = 0\<rparr>"

definition retentionDb :: db where
  "retentionDb =
     \<lparr>orders = [sampleOrderDoc 0 1 [7] 10, sampleOrderDoc 1 2 [9] 500],
      products = [sampleProductDoc 2 7, sampleProductDoc 3 8, sampleProductDoc 4 9],
      next_id = 400, writes = 5\<rparr>"

text \<open>
  The stores of the idempotence example: what the first pass over \<open>onePage\<close> makes of
  the empty store, and what the second pass makes of that.
\<close>

definition afterFirstSync :: db where
  "afterFirstSync =
     \<lparr>orders = [\<lparr>oid = 0, IOrder.paths = orderData (quietEnv onePage) (sampleOrder 1 [7]),
                  billing_id = 1, shipping_id = 2, line_item_ids = [3],
                  IOrder.createdAt = 0, IOrder.updatedAt = 0\<rparr>],
      products = [\<lparr>pid = 4, IProduct.paths = productData (quietEnv onePage) (sampleProduct 7),
                    dimensions_id = 5, image_ids = [], category_ids = [], tag_ids = [],
                    IProduct.createdAt = 1, IProduct.updatedAt = 1\<rparr>],
      next_id = 6, writes = 2\<rparr>"

definition afterSecondSync :: db where
  "afterSecondSync =
     \<lparr>orders = [\<lparr>oid = 0, IOrder.paths = orderData (quietEnv onePage) (sampleOrder 1 [7]),
                  billing_id = 6, shipping_id = 7, line_item_ids = [8],
                  IOrder.createdAt = 0, IOrder.updatedAt = 2\<rparr>],
      products = [\<lparr>pid = 4, IProduct.paths = productData (quietEnv onePage) (sampleProduct 7),
                    dimensions_id = 5, image_ids = [], category_ids = [], tag_ids = [],
                    IProduct.createdAt = 1, IProduct.updatedAt = 1\<rparr>],
      next_id = 9, writes = 3\<rparr>"

text \<open>
  The order document \<open>d2\<close> of the store \<open>T\<close> stands where \<open>d1\<close> stood in the store
  \<open>S\<close>, after the records \<open>recs\<close> were processed from \<open>S\<close> on and none of them
  inserted a document: when no record wrote it, it is \<open>d1\<close>; otherwise it has the data
  of the last record that wrote it, and the time and the \<^verbatim>\<open>_id\<close>s of a write made since
  \<open>S\<close>.
\<close>

definition replayed :: "env \<Rightarrow> WooCommerceOrder list \<Rightarrow> db \<Rightarrow> db \<Rightarrow> IOrder \<Rightarrow> IOrder \<Rightarrow> bool" where
  "replayed env recs S T d1 d2 =
     (oid d2 = oid d1 \<and> IOrder.createdAt d2 = IOrder.createdAt d1 \<and>
      OrderData.wooCommerceId (IOrder.paths d2) = OrderData.wooCommerceId (IOrder.paths d1) \<and>
      (case latest env recs (OrderData.wooCommerceId (IOrder.paths d1)) of
         None \<Rightarrow> d2 = d1
       | Some u \<Rightarrow>
           IOrder.paths d2 = u \<and>
           (\<exists>k. writes S \<le> k \<and> k < writes T \<and> IOrder.updatedAt d2 = now env k) \<and>
           next_id S \<le> billing_id d2 \<and> billing_id d2 < next_id T \<and>
           next_id S \<le> shipping_id d2 \<and> shipping_id d2 < next_id T \<and>
           list_all (\<lambda>j. next_id S \<le> j \<and> j < next_id T) (line_item_ids d2) \<and>
           length (line_item_ids d2) = length (OrderData.line_items (IOrder.paths d2))))"

section \<open>Lemmas\<close>

lemma updatedOrder_sel [simp]:
  "oid (updatedOrder env upd st d) = oid d"
  "IOrder.paths (updatedOrder env upd st d) = upd"
  "IOrder.createdAt (updatedOrder env upd st d) = IOrder.createdAt d"
  "IOrder.updatedAt (updatedOrder env upd st d) = now env (writes st)"
  "billing_id (updatedOrder env upd st d) = next_id st"
  "shipping_id (updatedOrder env upd st d) = next_id st + 1"
  "line_item_ids (updatedOrder env upd st d) =
     [next_id st + 2 ..< next_id st + 2 + length (OrderData.line_items upd)]"
  by (simp_all add: updatedOrder_def)

lemma insertedOrder_sel [simp]:
  "oid (insertedOrder env upd st) = next_id st"
  "IOrder.paths (insertedOrder env upd st) = upd"
  by (simp_all add: insertedOrder_def)

lemma updatedProduct_sel [simp]:
  "pid (updatedProduct env upd st d) = pid d"
  "IProduct.paths (updatedProduct env upd st d) = upd"
  by (simp_all add: updatedProduct_def)

lemma insertedProduct_sel [simp]:
  "pid (insertedProduct env upd st) = next_id st"
  "IProduct.paths (insertedProduct env upd st) = upd"
  by (simp_all add: insertedProduct_def)

lemma updateFirst_map: "(\<And>x. P x \<Longrightarrow> g (f x) = g x) \<Longrightarrow> map g (updateFirst P f xs) = map g xs"
  by (induction xs) auto

lemma updateFirst_mem: "\<exists>x\<in>set xs. P x \<Longrightarrow> \<exists>x\<in>set xs. f x \<in> set (updateFirst P f xs)"
  by (induction xs) auto

lemma Order_findOneAndUpdate_products:
  "Order_findOneAndUpdate env key upd st = Inr st' \<Longrightarrow> products st' = products st"
  by (auto simp: Order_findOneAndUpdate_def split: option.splits if_splits)

lemma Order_findOneAndUpdate_stored:
  assumes "Order_findOneAndUpdate env key upd st = Inr st'"
  shows "\<exists>d\<in>set (orders st'). IOrder.paths d = upd"
proof (cases "\<exists>d \<in> set (orders st). OrderData.wooCommerceId (IOrder.paths d) = key")
  case True
  from assms have thr: "orderUpsertThrows env upd = None"
    by (auto simp: Order_findOneAndUpdate_def split: option.splits)
  from assms thr True have st': "orders st' =
      updateFirst (\<lambda>d. OrderData.wooCommerceId (IOrder.paths d) = key)
        (updatedOrder env upd st) (orders st)"
    by (auto simp: Order_findOneAndUpdate_def)
  from updateFirst_mem[OF True, of "updatedOrder env upd st"]
  obtain x where "updatedOrder env upd st x \<in> set (orders st')"
    unfolding st' by blast
  moreover have "IOrder.paths (updatedOrder env upd st x) = upd" by simp
  ultimately show ?thesis by blast
next
  case False
  with assms show ?thesis
    by (auto simp: Order_findOneAndUpdate_def split: option.splits)
qed

lemma Order_findOneAndUpdate_throws:
  "(\<exists>e. Order_findOneAndUpdate env key upd st = Inl e) \<longleftrightarrow> orderUpsertThrows env upd \<noteq> None"
  by (auto simp: Order_findOneAndUpdate_def split: option.splits)

lemma Product_findOneAndUpdate_orders:
  "Product_findOneAndUpdate env key upd st = Inr st' \<Longrightarrow> orders st' = orders st"
  by (auto simp: Product_findOneAndUpdate_def split: option.splits if_splits)

lemma backfill_orders: "orders (fst (backfill env p st)) = orders st"
  by (auto simp: backfill_def syncProduct_def split: option.splits sum.splits dest: Product_findOneAndUpdate_orders)

lemma backfillAll_orders: "orders (fst (backfillAll env ps st)) = orders st"
  by (induction ps arbitrary: st) (simp_all add: case_prod_beta backfill_orders)

lemma syncProductsFromOrder_orders: "orders (fst (syncProductsFromOrder env w st)) = orders st"
  by (simp add: syncProductsFromOrder_def backfillAll_orders)

lemma syncOrder_fst: "fst (syncOrder env w st) = orderUpsertThrows env (orderData env w)"
  by (auto simp: syncOrder_def Order_findOneAndUpdate_def case_prod_beta split: option.splits sum.splits)

lemma syncOrder_stored:
  "orderUpsertThrows env (orderData env w) = None \<Longrightarrow>
   \<exists>d\<in>set (orders (fst (snd (syncOrder env w st)))). IOrder.paths d = orderData env w"
proof -
  assume a: "orderUpsertThrows env (orderData env w) = None"
  then obtain st1 where s: "Order_findOneAndUpdate env (id_o w) (orderData env w) st = Inr st1"
    by (auto simp: Order_findOneAndUpdate_def)
  from Order_findOneAndUpdate_stored[OF s] show ?thesis
    by (simp add: syncOrder_def s case_prod_beta syncProductsFromOrder_orders)
qed

lemma applyOrders_append: "applyOrders env (xs @ ys) st = applyOrders env ys (applyOrders env xs st)"
  by (induction xs arbitrary: st) auto

lemma backfill_requests: "\<forall>r\<in>set (snd (backfill env p st)). isGetProduct r"
  by (auto simp: backfill_def split: option.splits sum.splits)

lemma backfillAll_requests: "\<forall>r\<in>set (snd (backfillAll env ps st)). isGetProduct r"
  by (induction ps arbitrary: st) (auto simp: case_prod_beta backfill_requests)

lemma syncOrder_requests: "\<forall>r\<in>set (snd (snd (syncOrder env w st))). isGetProduct r"
  by (auto simp: syncOrder_def syncProductsFromOrder_def case_prod_beta backfillAll_requests split: sum.splits)

lemma syncPage_eq:
  "\<exists>rs'. syncPage env batch (s, e, st, rs) =
      (s + length (filter (upsertOk env) batch),
       e + length (filter (\<lambda>w. \<not> upsertOk env w) batch),
       applyOrders env batch st, rs @ rs') \<and> (\<forall>r\<in>set rs'. isGetProduct r)"
proof (induction batch arbitrary: s e st rs)
  case Nil
  show ?case by simp
next
  case (Cons w ws)
  obtain r st1 rs1 where so: "syncOrder env w st = (r, st1, rs1)"
    by (cases "syncOrder env w st") auto
  have r: "r = orderUpsertThrows env (orderData env w)"
    using syncOrder_fst[of env w st] so by simp
  have g: "\<forall>q\<in>set rs1. isGetProduct q"
    using syncOrder_requests[of env w st] so by simp
  show ?case
  proof (cases r)
    case None
    from Cons.IH[of "Suc s" e st1 "rs @ rs1"] obtain rs' where
      "syncPage env ws (Suc s, e, st1, rs @ rs1) =
        (Suc s + length (filter (upsertOk env) ws), e + length (filter (\<lambda>w. \<not> upsertOk env w) ws),
         applyOrders env ws st1, (rs @ rs1) @ rs')" and "\<forall>r\<in>set rs'. isGetProduct r"
      by blast
    moreover have "upsertOk env w" using None r by (simp add: upsertOk_def)
    ultimately show ?thesis using None so g
      by (intro exI[of _ "rs1 @ rs'"]) auto
  next
    case (Some err)
    from Cons.IH[of s "Suc e" st1 "rs @ rs1"] obtain rs' where
      "syncPage env ws (s, Suc e, st1, rs @ rs1) =
        (s + length (filter (upsertOk env) ws), Suc e + length (filter (\<lambda>w. \<not> upsertOk env w) ws),
         applyOrders env ws st1, (rs @ rs1) @ rs')" and "\<forall>r\<in>set rs'. isGetProduct r"
      by blast
    moreover have "\<not> upsertOk env w" using Some r by (simp add: upsertOk_def)
    ultimately show ?thesis using Some so g
      by (intro exI[of _ "rs1 @ rs'"]) auto
  qed
qed

lemma isGetProduct_filter: "\<forall>r\<in>set rs. isGetProduct r \<Longrightarrow> filter isGetOrders rs = []"
  by (induction rs) (auto elim: isGetProduct.elims)

lemma isGetProduct_noProbe: "\<forall>r\<in>set rs. isGetProduct r \<Longrightarrow> GetProbe \<notin> set rs"
  by auto

lemma syncPages_eq:
  "\<exists>rs'. syncPages env a p pgs (s, e, st, rs) =
      (s + length (filter (upsertOk env) (concat pgs)),
       e + length (filter (\<lambda>w. \<not> upsertOk env w) (concat pgs)),
       applyOrders env (concat pgs) st, rs @ rs') \<and>
      filter isGetOrders rs' = map (\<lambda>q. GetOrders q perPage a) [p ..< p + length pgs] \<and>
      GetProbe \<notin> set rs'"
proof (induction pgs arbitrary: p s e st rs)
  case Nil
  show ?case by simp
next
  case (Cons b bs)
  from syncPage_eq[of env b s e st "rs @ [GetOrders p perPage a]"] obtain rs1 where
    1: "syncPage env b (s, e, st, rs @ [GetOrders p perPage a]) =
      (s + length (filter (upsertOk env) b), e + length (filter (\<lambda>w. \<not> upsertOk env w) b),
       applyOrders env b st, (rs @ [GetOrders p perPage a]) @ rs1)" and g: "\<forall>r\<in>set rs1. isGetProduct r"
    by blast
  from Cons.IH[of "Suc p" "s + length (filter (upsertOk env) b)" "e + length (filter (\<lambda>w. \<not> upsertOk env w) b)"
      "applyOrders env b st" "(rs @ [GetOrders p perPage a]) @ rs1"]
  obtain rs2 where
    2: "syncPages env a (Suc p) bs (s + length (filter (upsertOk env) b), e + length (filter (\<lambda>w. \<not> upsertOk env w) b),
       applyOrders env b st, (rs @ [GetOrders p perPage a]) @ rs1) =
       (s + length (filter (upsertOk env) b) + length (filter (upsertOk env) (concat bs)),
        e + length (filter (\<lambda>w. \<not> upsertOk env w) b) + length (filter (\<lambda>w. \<not> upsertOk env w) (concat bs)),
        applyOrders env (concat bs) (applyOrders env b st), ((rs @ [GetOrders p perPage a]) @ rs1) @ rs2)"
    and f: "filter isGetOrders rs2 = map (\<lambda>q. GetOrders q perPage a) [Suc p ..< Suc p + length bs]"
    and n: "GetProbe \<notin> set rs2"
    by blast
  have up: "[p ..< p + length (b # bs)] = p # [Suc p ..< Suc p + length bs]"
    by (simp add: upt_rec)
  show ?case
    apply (rule exI[of _ "[GetOrders p perPage a] @ rs1 @ rs2"])
    using 1 2 f n g isGetProduct_filter[OF g] up
    by (auto simp: applyOrders_append)
qed

lemma syncLoop_fullPages:
  "fullPages env a p pgs \<Longrightarrow>
   syncLoop env a p s e st rs =
     (case syncPages env a p pgs (s, e, st, rs) of
        (s', e', st', rs') \<Rightarrow> syncLoop env a (p + length pgs) s' e' st' rs')"
proof (induction pgs arbitrary: p s e st rs)
  case Nil
  show ?case by simp
next
  case (Cons b bs)
  from Cons.prems have h: "getOrders env p perPage a = Inr b" "perPage \<le> length b"
    and t: "fullPages env a (Suc p) bs"
    by (auto simp: fullPages_def)
  from h(2) have ne: "length b \<noteq> 0" "\<not> length b < perPage" by (auto simp: perPage_def)
  obtain s1 e1 st1 rs1 where sp: "syncPage env b (s, e, st, rs @ [GetOrders p perPage a]) = (s1, e1, st1, rs1)"
    by (metis prod_cases4)
  have "syncLoop env a p s e st rs = syncLoop env a (Suc p) s1 e1 st1 rs1"
    by (subst syncLoop.simps) (simp add: fetchOrders_def h ne sp del: length_0_conv)
  also have "\<dots> = (case syncPages env a (Suc p) bs (s1, e1, st1, rs1) of
        (s', e', st', rs') \<Rightarrow> syncLoop env a (Suc p + length bs) s' e' st' rs')"
    by (rule Cons.IH[OF t])
  finally show ?case by (simp add: sp)
qed

lemma syncLoop_fail:
  "getOrders env p perPage a = Inl c \<Longrightarrow>
   syncLoop env a p s e st rs = Some (Inl (FailedToFetchOrders c), st, rs @ [GetOrders p perPage a])"
  by (subst syncLoop.simps) (simp add: fetchOrders_def)

lemma syncLoop_short:
  assumes "getOrders env p perPage a = Inr b" "length b < perPage"
  shows "\<exists>rs'. syncLoop env a p s e st rs =
      Some (Inr (s + length (filter (upsertOk env) b), e + length (filter (\<lambda>w. \<not> upsertOk env w) b)),
            applyOrders env b st, rs @ [GetOrders p perPage a] @ rs') \<and> (\<forall>r\<in>set rs'. isGetProduct r)"
proof (cases "b = []")
  case True
  then show ?thesis using assms
    by (subst syncLoop.simps) (simp add: fetchOrders_def)
next
  case False
  from syncPage_eq[of env b s e st "rs @ [GetOrders p perPage a]"] obtain rs1 where
    1: "syncPage env b (s, e, st, rs @ [GetOrders p perPage a]) =
      (s + length (filter (upsertOk env) b), e + length (filter (\<lambda>w. \<not> upsertOk env w) b),
       applyOrders env b st, (rs @ [GetOrders p perPage a]) @ rs1)" and g: "\<forall>r\<in>set rs1. isGetProduct r"
    by blast
  show ?thesis
    apply (rule exI[of _ rs1])
    apply (subst syncLoop.simps)
    using False assms 1 g by (simp add: fetchOrders_def)
qed

lemma walk_result:
  assumes "walk env a p pgs fin"
  shows "\<exists>rs'. syncLoop env a p s e st rs =
      Some ((case fin of Inl c \<Rightarrow> Inl (FailedToFetchOrders c)
             | Inr b \<Rightarrow> Inr (s + length (filter (upsertOk env) (fetched pgs fin)),
                            e + length (filter (\<lambda>w. \<not> upsertOk env w) (fetched pgs fin)))),
            applyOrders env (fetched pgs fin) st, rs @ rs') \<and>
      filter isGetOrders rs' = map (\<lambda>q. GetOrders q perPage a) [p ..< Suc (p + length pgs)] \<and>
      GetProbe \<notin> set rs'"
proof -
  from assms have fp: "fullPages env a p pgs" and g: "getOrders env (p + length pgs) perPage a = fin"
    and sh: "case fin of Inl c \<Rightarrow> True | Inr b \<Rightarrow> length b < perPage"
    by (auto simp: walk_def)
  from syncPages_eq[of env a p pgs s e st rs] obtain rs1 where
    1: "syncPages env a p pgs (s, e, st, rs) =
      (s + length (filter (upsertOk env) (concat pgs)),
       e + length (filter (\<lambda>w. \<not> upsertOk env w) (concat pgs)),
       applyOrders env (concat pgs) st, rs @ rs1)"
    and f1: "filter isGetOrders rs1 = map (\<lambda>q. GetOrders q perPage a) [p ..< p + length pgs]"
    and n1: "GetProbe \<notin> set rs1"
    by blast
  have L: "syncLoop env a p s e st rs =
      syncLoop env a (p + length pgs) (s + length (filter (upsertOk env) (concat pgs)))
        (e + length (filter (\<lambda>w. \<not> upsertOk env w) (concat pgs)))
        (applyOrders env (concat pgs) st) (rs @ rs1)"
    using syncLoop_fullPages[OF fp, of s e st rs] 1 by simp
  show ?thesis
  proof (cases fin)
    case (Inl c)
    show ?thesis
      apply (rule exI[of _ "rs1 @ [GetOrders (p + length pgs) perPage a]"])
      using L syncLoop_fail[of env "p + length pgs" a c] g Inl f1 n1
      by (simp add: fetched_def)
  next
    case (Inr b)
    with sh have "length b < perPage" by simp
    from syncLoop_short[OF g[unfolded Inr] this, of "s + length (filter (upsertOk env) (concat pgs))"
        "e + length (filter (\<lambda>w. \<not> upsertOk env w) (concat pgs))" "applyOrders env (concat pgs) st" "rs @ rs1"]
    obtain rs2 where 2: "syncLoop env a (p + length pgs) (s + length (filter (upsertOk env) (concat pgs)))
        (e + length (filter (\<lambda>w. \<not> upsertOk env w) (concat pgs)))
        (applyOrders env (concat pgs) st) (rs @ rs1) =
      Some (Inr (s + length (filter (upsertOk env) (concat pgs)) + length (filter (upsertOk env) b),
                 e + length (filter (\<lambda>w. \<not> upsertOk env w) (concat pgs)) + length (filter (\<lambda>w. \<not> upsertOk env w) b)),
            applyOrders env b (applyOrders env (concat pgs) st), (rs @ rs1) @ [GetOrders (p + length pgs) perPage a] @ rs2)"
      and g2: "\<forall>r\<in>set rs2. isGetProduct r"
      by blast
    have e2: "b = [] \<Longrightarrow> rs2 = []"
      using 2 by (subst (asm) syncLoop.simps) (simp add: fetchOrders_def g Inr)
    show ?thesis
      apply (rule exI[of _ "rs1 @ [GetOrders (p + length pgs) perPage a] @ rs2"])
      using L 2 Inr f1 n1 g2 isGetProduct_filter[OF g2] e2
      by (auto simp: fetched_def applyOrders_append)
  qed
qed

lemma walk_exists:
  "syncLoop env a p s e st rs = Some y \<Longrightarrow> \<exists>pgs fin. walk env a p pgs fin"
proof (induction rule: syncLoop.raw_induct[rotated 1, consumes 1])
  case (1 loop env a p s e st rs y)
  show ?case
  proof (cases "getOrders env p perPage a")
    case (Inl c)
    then have "walk env a p [] (Inl c)" by (simp add: walk_def fullPages_def)
    then show ?thesis by blast
  next
    case (Inr b)
    show ?thesis
    proof (cases "length b < perPage")
      case True
      with Inr have "walk env a p [] (Inr b)" by (simp add: walk_def fullPages_def)
      then show ?thesis by blast
    next
      case False
      then have ne: "length b \<noteq> 0" by (auto simp: perPage_def)
      from 1(2) Inr False ne obtain s1 e1 st1 rs1 where "loop env a (p + 1) s1 e1 st1 rs1 = Some y"
        by (auto simp: fetchOrders_def split: prod.splits simp del: length_0_conv)
      from 1(1)[OF this] obtain pgs fin where w: "walk env a (Suc p) pgs fin" by auto
      have "walk env a p (b # pgs) fin"
        using w Inr False unfolding walk_def fullPages_def
        by (auto simp: less_Suc_eq_0_disj)
      then show ?thesis by blast
    qed
  qed
qed

lemma updateFirst_distinct:
  "distinct (map k xs) \<Longrightarrow> (\<And>x. P x \<longleftrightarrow> k x = c) \<Longrightarrow>
   updateFirst P f xs = map (\<lambda>x. if k x = c then f x else x) xs"
proof (induction xs)
  case Nil
  show ?case by simp
next
  case (Cons x xs)
  show ?case
  proof (cases "k x = c")
    case True
    from Cons.prems(1) have "k x \<notin> k ` set xs" by simp
    then have "\<forall>y\<in>set xs. k y \<noteq> c" unfolding True[symmetric] by (metis imageI)
    then have "map (\<lambda>x. if k x = c then f x else x) xs = xs"
      by (simp add: map_idI)
    with True Cons.prems(2) show ?thesis by simp
  next
    case False
    with Cons show ?thesis by simp
  qed
qed

lemma orderData_key [simp]: "OrderData.wooCommerceId (orderData env w) = id_o w"
  by (simp add: orderData_def)

lemma productData_key [simp]: "ProductData.wooCommerceId (productData env w) = id_p w"
  by (simp add: productData_def)

lemma upsert_present:
  assumes "orderUpsertThrows env upd = None" "key \<in> set (orderIds st)" "distinct (orderIds st)"
  shows "Order_findOneAndUpdate env key upd st =
     Inr (st\<lparr>orders := map (\<lambda>d. if OrderData.wooCommerceId (IOrder.paths d) = key
                              then updatedOrder env upd st d else d) (orders st),
             next_id := next_id st + 2 + length (OrderData.line_items upd),
             writes := Suc (writes st)\<rparr>)"
proof -
  have ex: "\<exists>d\<in>set (orders st). OrderData.wooCommerceId (IOrder.paths d) = key"
    using assms(2) by (auto simp: orderIds_def)
  have "updateFirst (\<lambda>d. OrderData.wooCommerceId (IOrder.paths d) = key)
          (updatedOrder env upd st) (orders st) =
        map (\<lambda>d. if OrderData.wooCommerceId (IOrder.paths d) = key
                 then updatedOrder env upd st d else d) (orders st)"
    by (rule updateFirst_distinct[where k = "\<lambda>d. OrderData.wooCommerceId (IOrder.paths d)"])
       (use assms(3) in \<open>simp_all add: orderIds_def\<close>)
  then show ?thesis using assms(1) ex
    by (simp add: Order_findOneAndUpdate_def)
qed

lemma upsert_absent:
  assumes "orderUpsertThrows env upd = None" "key \<notin> set (orderIds st)"
  shows "Order_findOneAndUpdate env key upd st =
     Inr (st\<lparr>orders := orders st @ [insertedOrder env upd st],
             next_id := next_id st + 3 + length (OrderData.line_items upd),
             writes := Suc (writes st)\<rparr>)"
  using assms by (auto simp: Order_findOneAndUpdate_def orderIds_def)

lemma upsert_throws:
  "orderUpsertThrows env upd = Some c \<Longrightarrow> Order_findOneAndUpdate env key upd st = Inl c"
  by (simp add: Order_findOneAndUpdate_def)

lemma backfill_noop:
  "i \<in> set (productIds st) \<or> doomed env i \<Longrightarrow> fst (backfill env i st) = st"
  by (auto simp: backfill_def doomed_def productIds_def fetchProduct_def syncProduct_def
        Product_findOneAndUpdate_def split: option.splits sum.splits)

lemma backfillAll_noop:
  "\<forall>i\<in>set is. i \<in> set (productIds st) \<or> doomed env i \<Longrightarrow> fst (backfillAll env is st) = st"
  by (induction "is") (simp_all add: case_prod_beta backfill_noop)

lemma order_upsert_ids:
  assumes "Order_findOneAndUpdate env key upd st = Inr st'" "OrderData.wooCommerceId upd = key"
  shows "orderIds st' = (if key \<in> set (orderIds st) then orderIds st else orderIds st @ [key])"
proof -
  have m: "map (\<lambda>d. OrderData.wooCommerceId (IOrder.paths d))
          (updateFirst (\<lambda>d. OrderData.wooCommerceId (IOrder.paths d) = key)
             (updatedOrder env upd t) xs) =
        map (\<lambda>d. OrderData.wooCommerceId (IOrder.paths d)) xs" for t xs
    by (rule updateFirst_map) (simp add: assms(2))
  from assms(1) have thr: "orderUpsertThrows env upd = None"
    by (auto simp: Order_findOneAndUpdate_def split: option.splits)
  show ?thesis
  proof (cases "key \<in> set (orderIds st)")
    case True
    then have "\<exists>d\<in>set (orders st). OrderData.wooCommerceId (IOrder.paths d) = key"
      by (auto simp: orderIds_def)
    with assms(1) thr have "st' = st\<lparr>orders :=
        updateFirst (\<lambda>d. OrderData.wooCommerceId (IOrder.paths d) = key)
          (updatedOrder env upd st) (orders st),
        next_id := next_id st + 2 + length (OrderData.line_items upd),
        writes := Suc (writes st)\<rparr>"
      by (simp add: Order_findOneAndUpdate_def)
    then show ?thesis using True by (simp add: orderIds_def m)
  next
    case False
    then have "\<not> (\<exists>d\<in>set (orders st). OrderData.wooCommerceId (IOrder.paths d) = key)"
      by (auto simp: orderIds_def)
    with assms thr show ?thesis using False
      by (auto simp: Order_findOneAndUpdate_def orderIds_def)
  qed
qed

lemma product_upsert_ids:
  assumes "Product_findOneAndUpdate env key upd st = Inr st'" "ProductData.wooCommerceId upd = key"
  shows "productIds st' = (if key \<in> set (productIds st) then productIds st else productIds st @ [key])"
proof -
  have m: "map (\<lambda>d. ProductData.wooCommerceId (IProduct.paths d))
          (updateFirst (\<lambda>d. ProductData.wooCommerceId (IProduct.paths d) = key)
             (updatedProduct env upd t) xs) =
        map (\<lambda>d. ProductData.wooCommerceId (IProduct.paths d)) xs" for t xs
    by (rule updateFirst_map) (simp add: assms(2))
  from assms(1) have thr: "productUpsertThrows env upd = None"
    by (auto simp: Product_findOneAndUpdate_def split: option.splits)
  show ?thesis
  proof (cases "key \<in> set (productIds st)")
    case True
    then have "\<exists>d\<in>set (products st). ProductData.wooCommerceId (IProduct.paths d) = key"
      by (auto simp: productIds_def)
    with assms(1) thr have "st' = st\<lparr>products :=
        updateFirst (\<lambda>d. ProductData.wooCommerceId (IProduct.paths d) = key)
          (updatedProduct env upd st) (products st),
        next_id :=
          next_id st + 1 + length (images (ProductData.attrs upd)) +
            length (categories (ProductData.attrs upd)) +
            length (tags (ProductData.attrs upd)),
        writes := Suc (writes st)\<rparr>"
      by (simp add: Product_findOneAndUpdate_def)
    then show ?thesis using True by (simp add: productIds_def m)
  next
    case False
    then have "\<not> (\<exists>d\<in>set (products st). ProductData.wooCommerceId (IProduct.paths d) = key)"
      by (auto simp: productIds_def)
    with assms thr show ?thesis using False
      by (auto simp: Product_findOneAndUpdate_def productIds_def)
  qed
qed

lemma backfill_cases:
  "fst (backfill env i st) = st \<or>
   (\<exists>w st'. getProduct env i = Inr w \<and> i \<notin> set (productIds st) \<and>
      Product_findOneAndUpdate env (id_p w) (productData env w) st = Inr st' \<and> fst (backfill env i st) = st')"
  by (auto simp: backfill_def productIds_def fetchProduct_def syncProduct_def split: option.splits sum.splits)

lemma backfill_productIds_mono:
  "set (productIds st) \<subseteq> set (productIds (fst (backfill env i st)))"
  using backfill_cases[of env i st] by (auto dest!: product_upsert_ids split: if_splits)

lemma backfill_settles:
  assumes "\<forall>j w. getProduct env j = Inr w \<longrightarrow> id_p w = j"
  shows "i \<in> set (productIds (fst (backfill env i st))) \<or> doomed env i"
proof (cases "i \<in> set (productIds st) \<or> doomed env i")
  case True
  then show ?thesis using backfill_productIds_mono[of st env i] by auto
next
  case False
  then obtain w where w: "getProduct env i = Inr w" "productUpsertThrows env (productData env w) = None"
      "productFindOneThrows env i = None"
    by (auto simp: doomed_def split: sum.splits)
  with assms have k: "id_p w = i" by simp
  from w(2) obtain st' where u: "Product_findOneAndUpdate env (id_p w) (productData env w) st = Inr st'"
    by (auto simp: Product_findOneAndUpdate_def)
  have "fst (backfill env i st) = st'"
    using False w u by (auto simp: backfill_def productIds_def fetchProduct_def syncProduct_def)
  with product_upsert_ids[OF u] k show ?thesis by (auto split: if_splits)
qed

lemma in_orderIds:
  "k \<in> set (orderIds st) \<longleftrightarrow> (\<exists>d \<in> set (orders st). OrderData.wooCommerceId (IOrder.paths d) = k)"
  by (auto simp: orderIds_def)

lemma in_productIds:
  "k \<in> set (productIds st) \<longleftrightarrow> (\<exists>d \<in> set (products st). ProductData.wooCommerceId (IProduct.paths d) = k)"
  by (auto simp: productIds_def)

lemma syncOrder_orderIds:
  "orderIds (fst (snd (syncOrder env w st))) =
     (if upsertOk env w \<and> id_o w \<notin> set (orderIds st) then orderIds st @ [id_o w] else orderIds st)"
proof (cases "orderUpsertThrows env (orderData env w)")
  case (Some c)
  then show ?thesis
    by (simp add: syncOrder_def upsert_throws upsertOk_def)
next
  case None
  then obtain st1 where u: "Order_findOneAndUpdate env (id_o w) (orderData env w) st = Inr st1"
    by (auto simp: Order_findOneAndUpdate_def)
  have "orderIds (fst (snd (syncOrder env w st))) = orderIds st1"
    by (simp add: syncOrder_def u case_prod_beta orderIds_def syncProductsFromOrder_orders)
  with order_upsert_ids[OF u] None show ?thesis
    by (simp add: upsertOk_def)
qed

lemma applyOrders_orderIds_mono:
  "set (orderIds st) \<subseteq> set (orderIds (applyOrders env recs st))"
proof (induction recs arbitrary: st)
  case Nil
  show ?case by simp
next
  case (Cons w ws)
  have "set (orderIds st) \<subseteq> set (orderIds (fst (snd (syncOrder env w st))))"
    by (auto simp: syncOrder_orderIds)
  with Cons.IH[of "fst (snd (syncOrder env w st))"] show ?case by auto
qed

lemma applyOrders_stored:
  "w \<in> set recs \<Longrightarrow> upsertOk env w \<Longrightarrow> id_o w \<in> set (orderIds (applyOrders env recs st))"
proof (induction recs arbitrary: st)
  case Nil
  then show ?case by simp
next
  case (Cons x xs)
  show ?case
  proof (cases "w = x")
    case True
    with Cons.prems(2) have "id_o w \<in> set (orderIds (fst (snd (syncOrder env x st))))"
      by (simp add: syncOrder_orderIds)
    with applyOrders_orderIds_mono[of "fst (snd (syncOrder env x st))" env xs] show ?thesis
      by auto
  next
    case False
    with Cons show ?thesis by simp
  qed
qed

lemma applyOrders_distinct_orderIds:
  "distinct (orderIds st) \<Longrightarrow> distinct (orderIds (applyOrders env recs st))"
proof (induction recs arbitrary: st)
  case Nil
  then show ?case by simp
next
  case (Cons w ws)
  from Cons.prems have "distinct (orderIds (fst (snd (syncOrder env w st))))"
    by (simp add: syncOrder_orderIds)
  from Cons.IH[OF this] show ?case by simp
qed

lemma backfill_distinct_productIds:
  "distinct (productIds st) \<Longrightarrow> distinct (productIds (fst (backfill env i st)))"
  using backfill_cases[of env i st] by (auto dest!: product_upsert_ids split: if_splits)

lemma backfillAll_distinct_productIds:
  "distinct (productIds st) \<Longrightarrow> distinct (productIds (fst (backfillAll env is st)))"
  by (induction "is" arbitrary: st) (simp_all add: case_prod_beta backfill_distinct_productIds)

lemma syncOrder_distinct_productIds:
  assumes "distinct (productIds st)"
  shows "distinct (productIds (fst (snd (syncOrder env w st))))"
proof (cases "Order_findOneAndUpdate env (id_o w) (orderData env w) st")
  case (Inl c)
  with assms show ?thesis by (simp add: syncOrder_def)
next
  case (Inr st1)
  from Order_findOneAndUpdate_products[OF Inr] assms have "distinct (productIds st1)"
    by (simp add: productIds_def)
  from backfillAll_distinct_productIds[OF this] Inr show ?thesis
    by (simp add: syncOrder_def case_prod_beta syncProductsFromOrder_def)
qed

lemma applyOrders_distinct_productIds:
  "distinct (productIds st) \<Longrightarrow> distinct (productIds (applyOrders env recs st))"
proof (induction recs arbitrary: st)
  case Nil
  then show ?case by simp
next
  case (Cons w ws)
  from Cons.IH[OF syncOrder_distinct_productIds[OF Cons.prems]] show ?case by simp
qed

lemma syncOrders_applies:
  assumes "syncOrders env a st = Some (r, st', rs)"
  shows "\<exists>pgs fin. walk env a 1 pgs fin \<and> st' = applyOrders env (fetched pgs fin) st \<and>
           r = (case fin of Inl c \<Rightarrow> Inl (FailedToFetchOrders c)
                | Inr b \<Rightarrow> Inr (length (filter (upsertOk env) (fetched pgs fin)),
                               length (filter (\<lambda>w. \<not> upsertOk env w) (fetched pgs fin))))"
proof -
  from assms have l: "syncLoop env a 1 0 0 st [] = Some (r, st', rs)"
    by (simp add: syncOrders_def)
  from walk_exists[OF l] obtain pgs fin where w: "walk env a 1 pgs fin" by blast
  from walk_result[OF w, of 0 0 st "[]"] l show ?thesis
    using w by (intro exI[of _ pgs] exI[of _ fin]) (auto split: sum.splits)
qed

lemma walk_fail_result:
  assumes "fullPages env a p pgs" "getOrders env (p + length pgs) perPage a = Inl c"
  shows "\<exists>rs'. syncLoop env a p s e st rs =
      Some (Inl (FailedToFetchOrders c), applyOrders env (concat pgs) st,
            rs @ rs' @ [GetOrders (p + length pgs) perPage a])"
proof -
  from syncPages_eq[of env a p pgs s e st rs] obtain rs1 where
    1: "syncPages env a p pgs (s, e, st, rs) =
      (s + length (filter (upsertOk env) (concat pgs)),
       e + length (filter (\<lambda>w. \<not> upsertOk env w) (concat pgs)),
       applyOrders env (concat pgs) st, rs @ rs1)"
    by blast
  have "syncLoop env a p s e st rs =
      syncLoop env a (p + length pgs) (s + length (filter (upsertOk env) (concat pgs)))
        (e + length (filter (\<lambda>w. \<not> upsertOk env w) (concat pgs)))
        (applyOrders env (concat pgs) st) (rs @ rs1)"
    using syncLoop_fullPages[OF assms(1), of s e st rs] 1 by simp
  with syncLoop_fail[OF assms(2)] show ?thesis by simp
qed

lemma endless_never_returns:
  assumes "\<forall>p. \<exists>b. getOrders env p perPage a = Inr b \<and> perPage \<le> length b"
  shows "syncLoop env a p s e st rs = None"
proof (cases "syncLoop env a p s e st rs")
  case None
  then show ?thesis .
next
  case (Some y)
  from walk_exists[OF Some] obtain pgs fin where "walk env a p pgs fin" by blast
  with assms[rule_format, of "p + length pgs"] show ?thesis
    by (auto simp: walk_def)
qed

lemma distinct_count_one:
  "distinct ys \<Longrightarrow> k \<in> set ys \<Longrightarrow> length (filter (\<lambda>x. x = k) ys) = 1"
proof (induction ys)
  case Nil
  then show ?case by simp
next
  case (Cons y ys)
  show ?case
  proof (cases "y = k")
    case True
    with Cons.prems have "filter (\<lambda>x. x = k) ys = []"
      by (auto simp: filter_empty_conv)
    with True show ?thesis by simp
  next
    case False
    with Cons show ?thesis by simp
  qed
qed

lemma syncOrders_distinct:
  assumes "syncOrders env a st = Some (r, st', rs)" "distinct (orderIds st)" "distinct (productIds st)"
  shows "distinct (orderIds st') \<and> distinct (productIds st')"
proof -
  from syncOrders_applies[OF assms(1)] obtain pgs fin where
    "st' = applyOrders env (fetched pgs fin) st" by blast
  with assms(2,3) show ?thesis
    by (simp add: applyOrders_distinct_orderIds applyOrders_distinct_productIds)
qed

lemma syncPasses_distinct:
  "syncPasses ps st = Some st' \<Longrightarrow> distinct (orderIds st) \<Longrightarrow> distinct (productIds st) \<Longrightarrow>
   distinct (orderIds st') \<and> distinct (productIds st')"
proof (induction ps arbitrary: st)
  case Nil
  then show ?case by simp
next
  case (Cons q ps)
  obtain env a where q: "q = (env, a)" by (cases q)
  from Cons.prems(1) q obtain r st1 rs where
    1: "syncOrders env a st = Some (r, st1, rs)" and 2: "syncPasses ps st1 = Some st'"
    by (auto split: option.splits)
  from syncOrders_distinct[OF 1 Cons.prems(2,3)] Cons.IH[OF 2] show ?case by blast
qed

lemma syncOrders_returns:
  assumes "getOrders env 1 perPage a = Inr b" "length b < perPage"
  shows "\<exists>r st' rs. syncOrders env a st = Some (r, st', rs)"
  using syncLoop_short[OF assms, of 0 0 st "[]"] by (auto simp: syncOrders_def)

lemma deleteOrders_products:
  "products (snd (snd (deleteOrders env sel (n, ids, st)))) = products st"
  by (induction sel arbitrary: n ids st) (auto split: option.splits)

lemma foldl_setAdd_set: "set (foldl setAdd ids xs) = set ids \<union> set xs"
  by (induction xs arbitrary: ids) (auto simp: setAdd_def)

lemma deleteOrders_ids:
  "set (fst (snd (deleteOrders env sel (n, ids, st)))) =
     set ids \<union> (\<Union>d \<in> set sel. product_id ` set (OrderData.line_items (IOrder.paths d)))"
  by (induction sel arbitrary: n ids st) (auto split: option.splits simp: foldl_setAdd_set)

lemma filter_deleteFirst:
  "(\<And>x. P x \<Longrightarrow> \<not> Q x) \<Longrightarrow> filter Q (deleteFirst P xs) = filter Q xs"
  by (induction xs) auto

lemma cleanupLoop_orders:
  "orders (snd (cleanupLoop env ids (n, st))) = orders st"
  by (induction ids arbitrary: n st) (auto split: option.splits)

lemma orderWithProduct_cong:
  "orders st = orders st' \<Longrightarrow> orderWithProduct st k = orderWithProduct st' k"
  by (simp add: orderWithProduct_def)

lemma cleanupLoop_changed:
  "productsWithId (snd (cleanupLoop env ids (n, st))) k \<noteq> productsWithId st k \<Longrightarrow>
   k \<in> set ids \<and> \<not> orderWithProduct st k"
proof (induction ids arbitrary: n st)
  case Nil
  then show ?case by simp
next
  case (Cons i ids)
  show ?case
  proof (cases "orderFindOneThrows env i = None \<and> \<not> orderWithProduct st i \<and> productDeleteThrows env i = None")
    case False
    then have "cleanupLoop env (i # ids) (n, st) = cleanupLoop env ids (n, st)"
      by (auto split: option.splits)
    with Cons.prems Cons.IH[of n st] show ?thesis by auto
  next
    case True
    define st1 where "st1 = st\<lparr>products :=
        deleteFirst (\<lambda>d. ProductData.wooCommerceId (IProduct.paths d) = i) (products st)\<rparr>"
    from True have e: "cleanupLoop env (i # ids) (n, st) = cleanupLoop env ids (Suc n, st1)"
      by (simp add: st1_def)
    have o: "orders st1 = orders st" by (simp add: st1_def)
    show ?thesis
    proof (cases "k = i")
      case True
      with \<open>orderFindOneThrows env i = None \<and> \<not> orderWithProduct st i \<and> productDeleteThrows env i = None\<close>
      show ?thesis by simp
    next
      case False
      then have "filter (\<lambda>d. ProductData.wooCommerceId (IProduct.paths d) = k)
            (deleteFirst (\<lambda>d. ProductData.wooCommerceId (IProduct.paths d) = i) (products st)) =
          filter (\<lambda>d. ProductData.wooCommerceId (IProduct.paths d) = k) (products st)"
        by (intro filter_deleteFirst) simp
      then have "productsWithId st1 k = productsWithId st k"
        by (simp add: productsWithId_def st1_def)
      with Cons.prems e have "productsWithId (snd (cleanupLoop env ids (Suc n, st1))) k \<noteq> productsWithId st1 k"
        by simp
      from Cons.IH[OF this] orderWithProduct_cong[OF o] show ?thesis by auto
    qed
  qed
qed

lemma latest_Cons:
  "latest env (w # ws) k =
     (case latest env ws k of
        Some u \<Rightarrow> Some u
      | None \<Rightarrow> if upsertOk env w \<and> id_o w = k then Some (orderData env w) else None)"
  by (simp add: latest_def)

lemma latest_snoc:
  "latest env (ws @ [w]) k =
     (if upsertOk env w \<and> id_o w = k then Some (orderData env w) else latest env ws k)"
  by (simp add: latest_def)

lemma syncOrder_not_ok: "\<not> upsertOk env w \<Longrightarrow> fst (snd (syncOrder env w st)) = st"
  by (auto simp: syncOrder_def upsertOk_def upsert_throws)

lemma syncOrder_orders_present:
  assumes "upsertOk env w" "distinct (orderIds st)" "id_o w \<in> set (orderIds st)"
  shows "orders (fst (snd (syncOrder env w st))) =
     map (\<lambda>d. if OrderData.wooCommerceId (IOrder.paths d) = id_o w
              then updatedOrder env (orderData env w) st d else d)
       (orders st)"
proof -
  from assms(1) have n: "orderUpsertThrows env (orderData env w) = None"
    by (simp add: upsertOk_def)
  show ?thesis
    by (simp add: syncOrder_def upsert_present[OF n assms(3,2)] case_prod_beta
          syncProductsFromOrder_orders)
qed

lemma syncOrder_orders_absent:
  assumes "upsertOk env w" "id_o w \<notin> set (orderIds st)"
  shows "orders (fst (snd (syncOrder env w st))) =
     orders st @ [insertedOrder env (orderData env w) st]"
proof -
  from assms(1) have n: "orderUpsertThrows env (orderData env w) = None"
    by (simp add: upsertOk_def)
  show ?thesis
    by (simp add: syncOrder_def upsert_absent[OF n assms(2)] case_prod_beta
          syncProductsFromOrder_orders)
qed

lemma applyOrders_saturated:
  assumes "distinct (orderIds st)"
  shows "d \<in> set (orders (applyOrders env recs st)) \<Longrightarrow>
         latest env recs (OrderData.wooCommerceId (IOrder.paths d)) = Some u \<Longrightarrow> IOrder.paths d = u"
proof (induction recs arbitrary: d u rule: rev_induct)
  case Nil
  then show ?case by (simp add: latest_def)
next
  case (snoc w ws)
  let ?S = "applyOrders env ws st"
  have dS: "distinct (orderIds ?S)"
    using assms by (rule applyOrders_distinct_orderIds)
  have e: "applyOrders env (ws @ [w]) st = fst (snd (syncOrder env w ?S))"
    by (simp add: applyOrders_append)
  show ?case
  proof (cases "upsertOk env w")
    case False
    then have "applyOrders env (ws @ [w]) st = ?S"
      unfolding e by (rule syncOrder_not_ok)
    moreover from False have "latest env (ws @ [w]) k = latest env ws k" for k
      by (simp add: latest_snoc)
    ultimately show ?thesis using snoc by simp
  next
    case True
    show ?thesis
    proof (cases "id_o w \<in> set (orderIds ?S)")
      case present: True
      from snoc.prems(1) obtain d0 where d0: "d0 \<in> set (orders ?S)"
        and dd: "d = (if OrderData.wooCommerceId (IOrder.paths d0) = id_o w
              then updatedOrder env (orderData env w) ?S d0 else d0)"
        unfolding e syncOrder_orders_present[OF True dS present] by auto
      show ?thesis
      proof (cases "OrderData.wooCommerceId (IOrder.paths d0) = id_o w")
        case k: True
        with dd have p: "IOrder.paths d = orderData env w" by simp
        then have "OrderData.wooCommerceId (IOrder.paths d) = id_o w" by simp
        with snoc.prems(2) True have "u = orderData env w"
          by (simp add: latest_snoc)
        with p show ?thesis by simp
      next
        case k: False
        with dd have eq: "d = d0" by simp
        with k snoc.prems(2) have "latest env ws (OrderData.wooCommerceId (IOrder.paths d0)) = Some u"
          by (simp add: latest_snoc)
        from snoc.IH[OF d0 this] eq show ?thesis by simp
      qed
    next
      case absent: False
      from snoc.prems(1) have "d \<in> set (orders ?S) \<or>
          d = insertedOrder env (orderData env w) ?S"
        unfolding e syncOrder_orders_absent[OF True absent] by auto
      then show ?thesis
      proof
        assume m: "d \<in> set (orders ?S)"
        with absent have "OrderData.wooCommerceId (IOrder.paths d) \<noteq> id_o w"
          unfolding in_orderIds by blast
        with snoc.prems(2) have "latest env ws (OrderData.wooCommerceId (IOrder.paths d)) = Some u"
          by (simp add: latest_snoc)
        from snoc.IH[OF m this] show ?thesis .
      next
        assume n: "d = insertedOrder env (orderData env w) ?S"
        then have p: "IOrder.paths d = orderData env w" by simp
        then have "OrderData.wooCommerceId (IOrder.paths d) = id_o w" by simp
        with snoc.prems(2) True have "u = orderData env w"
          by (simp add: latest_snoc)
        with p show ?thesis by simp
      qed
    qed
  qed
qed

lemma set_newSet [simp]: "set (newSet xs) = set xs"
  by (simp add: newSet_def)

lemma backfillAll_productIds_mono:
  "set (productIds st) \<subseteq> set (productIds (fst (backfillAll env is st)))"
proof (induction "is" arbitrary: st)
  case Nil
  show ?case by simp
next
  case (Cons i "is")
  have "set (productIds st) \<subseteq> set (productIds (fst (backfill env i st)))"
    by (rule backfill_productIds_mono)
  also have "\<dots> \<subseteq> set (productIds (fst (backfillAll env is (fst (backfill env i st)))))"
    by (rule Cons)
  finally show ?case by (simp add: case_prod_beta)
qed

lemma backfillAll_settles:
  assumes "\<forall>j w. getProduct env j = Inr w \<longrightarrow> id_p w = j"
  shows "i \<in> set is \<Longrightarrow> i \<in> set (productIds (fst (backfillAll env is st))) \<or> doomed env i"
proof (induction "is" arbitrary: st)
  case Nil
  then show ?case by simp
next
  case (Cons j js)
  show ?case
  proof (cases "i = j")
    case True
    from backfill_settles[OF assms, of i st] True
      backfillAll_productIds_mono[of "fst (backfill env j st)" env js]
    show ?thesis by (auto simp: case_prod_beta)
  next
    case False
    with Cons show ?thesis by (simp add: case_prod_beta)
  qed
qed

lemma syncOrder_productIds_mono:
  "set (productIds st) \<subseteq> set (productIds (fst (snd (syncOrder env w st))))"
proof (cases "Order_findOneAndUpdate env (id_o w) (orderData env w) st")
  case (Inl c)
  then show ?thesis by (simp add: syncOrder_def)
next
  case (Inr st1)
  from Order_findOneAndUpdate_products[OF Inr] have "productIds st1 = productIds st"
    by (simp add: productIds_def)
  then have "set (productIds st) \<subseteq>
      set (productIds (fst (backfillAll env (newSet (map product_id (WooCommerceOrder.line_items w))) st1)))"
    using backfillAll_productIds_mono[of st1 env "newSet (map product_id (WooCommerceOrder.line_items w))"]
    by simp
  then show ?thesis
    by (simp add: syncOrder_def Inr case_prod_beta syncProductsFromOrder_def)
qed

lemma applyOrders_productIds_mono:
  "set (productIds st) \<subseteq> set (productIds (applyOrders env recs st))"
proof (induction recs arbitrary: st)
  case Nil
  show ?case by simp
next
  case (Cons w ws)
  have "set (productIds st) \<subseteq> set (productIds (fst (snd (syncOrder env w st))))"
    by (rule syncOrder_productIds_mono)
  also have "\<dots> \<subseteq> set (productIds (applyOrders env ws (fst (snd (syncOrder env w st)))))"
    by (rule Cons)
  finally show ?case by simp
qed

lemma syncOrder_settles:
  assumes "\<forall>j w. getProduct env j = Inr w \<longrightarrow> id_p w = j" "upsertOk env w"
    "i \<in> set (map product_id (WooCommerceOrder.line_items w))"
  shows "i \<in> set (productIds (fst (snd (syncOrder env w st)))) \<or> doomed env i"
proof -
  from assms(2) obtain st1 where u: "Order_findOneAndUpdate env (id_o w) (orderData env w) st = Inr st1"
    by (auto simp: Order_findOneAndUpdate_def upsertOk_def)
  from assms(3) have "i \<in> set (newSet (map product_id (WooCommerceOrder.line_items w)))"
    by simp
  from backfillAll_settles[OF assms(1) this, of st1] u show ?thesis
    by (simp add: syncOrder_def case_prod_beta syncProductsFromOrder_def)
qed

lemma applyOrders_settled:
  assumes "\<forall>j w. getProduct env j = Inr w \<longrightarrow> id_p w = j"
  shows "w \<in> set recs \<Longrightarrow> upsertOk env w \<Longrightarrow>
     i \<in> set (map product_id (WooCommerceOrder.line_items w)) \<Longrightarrow>
     i \<in> set (productIds (applyOrders env recs st)) \<or> doomed env i"
proof (induction recs arbitrary: st)
  case Nil
  then show ?case by simp
next
  case (Cons x xs)
  show ?case
  proof (cases "w = x")
    case True
    from syncOrder_settles[OF assms Cons.prems(2,3), of st] True
      applyOrders_productIds_mono[of "fst (snd (syncOrder env x st))" env xs]
    show ?thesis by auto
  next
    case False
    with Cons show ?thesis by simp
  qed
qed

lemma syncOrder_replay:
  assumes "upsertOk env w" "distinct (orderIds t)" "id_o w \<in> set (orderIds t)"
    "\<forall>i \<in> set (map product_id (WooCommerceOrder.line_items w)). i \<in> set (productIds t) \<or> doomed env i"
  shows "fst (snd (syncOrder env w t)) =
     t\<lparr>orders := map (\<lambda>d. if OrderData.wooCommerceId (IOrder.paths d) = id_o w
              then updatedOrder env (orderData env w) t d else d) (orders t),
       next_id := next_id t + 2 + length (OrderData.line_items (orderData env w)),
       writes := Suc (writes t)\<rparr>"
proof -
  from assms(1) have n: "orderUpsertThrows env (orderData env w) = None"
    by (simp add: upsertOk_def)
  let ?t1 = "t\<lparr>orders := map (\<lambda>d. if OrderData.wooCommerceId (IOrder.paths d) = id_o w
              then updatedOrder env (orderData env w) t d else d) (orders t),
       next_id := next_id t + 2 + length (OrderData.line_items (orderData env w)),
       writes := Suc (writes t)\<rparr>"
  have p: "productIds ?t1 = productIds t" by (simp add: productIds_def)
  have "fst (backfillAll env (newSet (map product_id (WooCommerceOrder.line_items w))) ?t1) = ?t1"
    by (rule backfillAll_noop) (use assms(4) p in simp)
  then show ?thesis
    by (simp add: syncOrder_def upsert_present[OF n assms(3,2)] case_prod_beta
          syncProductsFromOrder_def)
qed

lemma latest_None_iff: "latest env recs k = None \<longleftrightarrow> \<not> rewritten env recs k"
  by (auto simp: latest_def rewritten_def filter_empty_conv)

lemma replayed_refl: "replayed env [] S S d d"
  by (simp add: replayed_def latest_def)

lemma replayed_skip:
  "\<not> upsertOk env w \<Longrightarrow> replayed env (ws @ [w]) S T d1 d2 = replayed env ws S T d1 d2"
  by (simp add: replayed_def latest_snoc)

lemma replayed_miss:
  assumes "replayed env ws S T d1 d2" "OrderData.wooCommerceId (IOrder.paths d1) \<noteq> id_o w"
    "writes T \<le> writes T'" "next_id T \<le> next_id T'"
  shows "replayed env (ws @ [w]) S T' d1 d2"
proof (cases "latest env ws (OrderData.wooCommerceId (IOrder.paths d1))")
  case None
  with assms(1,2) show ?thesis
    by (simp add: replayed_def latest_snoc)
next
  case (Some u)
  from assms(1) Some obtain k where k: "writes S \<le> k" "k < writes T" "IOrder.updatedAt d2 = now env k"
    by (auto simp: replayed_def)
  from k(2) assms(3) have k': "k < writes T'" by simp
  from assms(1) Some have l: "list_all (\<lambda>j. next_id S \<le> j \<and> j < next_id T) (line_item_ids d2)"
    by (simp add: replayed_def)
  have l': "list_all (\<lambda>j. next_id S \<le> j \<and> j < next_id T') (line_item_ids d2)"
    using l assms(4) by (auto simp: list_all_iff)
  from assms(1) Some have b: "billing_id d2 < next_id T" "shipping_id d2 < next_id T"
    by (simp_all add: replayed_def)
  with assms(4) have b': "billing_id d2 < next_id T'" "shipping_id d2 < next_id T'" by simp_all
  have "\<exists>k. writes S \<le> k \<and> k < writes T' \<and> IOrder.updatedAt d2 = now env k"
    using k(1) k' k(3) by blast
  with assms(1,2) Some l' b' show ?thesis
    by (auto simp: replayed_def latest_snoc)
qed

lemma replayed_hit:
  assumes "replayed env ws S T d1 d2" "OrderData.wooCommerceId (IOrder.paths d1) = id_o w"
    "upsertOk env w" "writes S \<le> writes T" "next_id S \<le> next_id T"
    "writes T' = Suc (writes T)"
    "next_id T' = next_id T + 2 + length (OrderData.line_items (orderData env w))"
  shows "replayed env (ws @ [w]) S T' d1 (updatedOrder env (orderData env w) T d2)"
proof -
  let ?d = "updatedOrder env (orderData env w) T d2"
  have la: "latest env (ws @ [w]) (OrderData.wooCommerceId (IOrder.paths d1)) = Some (orderData env w)"
    using assms(2,3) by (simp add: latest_snoc)
  from assms(1) have f1: "oid ?d = oid d1" and f2: "IOrder.createdAt ?d = IOrder.createdAt d1"
    by (simp_all add: replayed_def)
  have f3: "OrderData.wooCommerceId (IOrder.paths ?d) = OrderData.wooCommerceId (IOrder.paths d1)"
    using assms(2) by simp
  have f4: "IOrder.paths ?d = orderData env w" by simp
  have f5: "\<exists>k. writes S \<le> k \<and> k < writes T' \<and> IOrder.updatedAt ?d = now env k"
    using assms(4,6) by (intro exI[of _ "writes T"]) simp
  have f6: "next_id S \<le> billing_id ?d" "billing_id ?d < next_id T'"
      "next_id S \<le> shipping_id ?d" "shipping_id ?d < next_id T'"
    using assms(5,7) by simp_all
  have f7: "list_all (\<lambda>j. next_id S \<le> j \<and> j < next_id T') (line_item_ids ?d)"
    using assms(5,7) by (auto simp: list_all_iff simp del: upt_Suc)
  have "length (line_item_ids ?d) = length (OrderData.line_items (orderData env w))"
    by (simp del: upt_Suc)
  then have f8: "length (line_item_ids ?d) = length (OrderData.line_items (IOrder.paths ?d))"
    unfolding f4 .
  show ?thesis
    unfolding replayed_def la option.case
    using f1 f2 f3 f4 f5 f6 f7 f8 by blast
qed

lemma list_all2_same_map:
  "list_all2 R xs ys \<Longrightarrow> (\<And>x y. R x y \<Longrightarrow> f y = f x) \<Longrightarrow> map f ys = map f xs"
  by (induction rule: list_all2_induct) auto

lemma applyOrders_replay:
  assumes "distinct (orderIds S)"
  shows "\<forall>w \<in> set recs. upsertOk env w \<longrightarrow>
        id_o w \<in> set (orderIds S) \<and>
        (\<forall>i \<in> set (map product_id (WooCommerceOrder.line_items w)). i \<in> set (productIds S) \<or> doomed env i) \<Longrightarrow>
     products (applyOrders env recs S) = products S \<and>
     writes S \<le> writes (applyOrders env recs S) \<and>
     next_id S \<le> next_id (applyOrders env recs S) \<and>
     list_all2 (replayed env recs S (applyOrders env recs S)) (orders S) (orders (applyOrders env recs S))"
proof (induction recs rule: rev_induct)
  case Nil
  have "list_all2 (replayed env [] S S) (orders S) (orders S)"
    by (rule list_all2_all_nthI) (simp_all add: replayed_refl)
  then show ?case by simp
next
  case (snoc w ws)
  let ?T = "applyOrders env ws S"
  from snoc.prems have pre: "\<forall>w \<in> set ws. upsertOk env w \<longrightarrow>
        id_o w \<in> set (orderIds S) \<and>
        (\<forall>i \<in> set (map product_id (WooCommerceOrder.line_items w)). i \<in> set (productIds S) \<or> doomed env i)"
    by simp
  from snoc.IH[OF pre] have
    p: "products ?T = products S" and wr: "writes S \<le> writes ?T" and nx: "next_id S \<le> next_id ?T"
    and r: "list_all2 (replayed env ws S ?T) (orders S) (orders ?T)"
    by auto
  have e: "applyOrders env (ws @ [w]) S = fst (snd (syncOrder env w ?T))"
    by (simp add: applyOrders_append)
  show ?case
  proof (cases "upsertOk env w")
    case False
    then have "fst (snd (syncOrder env w ?T)) = ?T" by (rule syncOrder_not_ok)
    moreover from False have "replayed env (ws @ [w]) S ?T = replayed env ws S ?T"
      by (intro ext) (simp add: replayed_skip)
    ultimately show ?thesis using p wr nx r unfolding e by simp
  next
    case True
    have oi: "orderIds ?T = orderIds S"
      unfolding orderIds_def
      by (rule list_all2_same_map[OF r]) (simp add: replayed_def)
    have pi: "productIds ?T = productIds S"
      by (simp add: productIds_def p)
    let ?upd = "\<lambda>d. if OrderData.wooCommerceId (IOrder.paths d) = id_o w
              then updatedOrder env (orderData env w) ?T d else d"
    let ?T' = "?T\<lparr>orders := map ?upd (orders ?T),
       next_id := next_id ?T + 2 + length (OrderData.line_items (orderData env w)),
       writes := Suc (writes ?T)\<rparr>"
    from snoc.prems True have c: "id_o w \<in> set (orderIds S)"
      "\<forall>i \<in> set (map product_id (WooCommerceOrder.line_items w)). i \<in> set (productIds S) \<or> doomed env i"
      by auto
    have s: "fst (snd (syncOrder env w ?T)) = ?T'"
      by (rule syncOrder_replay[OF True]) (use assms c oi pi in simp_all)
    have "list_all2 (\<lambda>d1 d2. replayed env (ws @ [w]) S ?T' d1 (?upd d2)) (orders S) (orders ?T)"
    proof (rule list_all2_mono[OF r])
      fix d1 d2
      assume q: "replayed env ws S ?T d1 d2"
      then have k: "OrderData.wooCommerceId (IOrder.paths d2) = OrderData.wooCommerceId (IOrder.paths d1)"
        by (simp add: replayed_def)
      show "replayed env (ws @ [w]) S ?T' d1 (?upd d2)"
      proof (cases "OrderData.wooCommerceId (IOrder.paths d1) = id_o w")
        case hit: True
        from replayed_hit[OF q hit True wr nx, of ?T'] hit k show ?thesis by simp
      next
        case miss: False
        from replayed_miss[OF q miss, of ?T'] miss k show ?thesis by simp
      qed
    qed
    then have "list_all2 (replayed env (ws @ [w]) S ?T') (orders S) (map ?upd (orders ?T))"
      by (simp add: list_all2_map2)
    then have "list_all2 (replayed env (ws @ [w]) S ?T') (orders S) (orders ?T')"
      by simp
    moreover have "products ?T' = products S" using p by simp
    moreover have "writes S \<le> writes ?T'" using wr by simp
    moreover have "next_id S \<le> next_id ?T'" using nx by simp
    ultimately show ?thesis unfolding e s by blast
  qed
qed

lemma applyOrders_twice:
  assumes "\<forall>j w. getProduct env j = Inr w \<longrightarrow> id_p w = j" "distinct (orderIds st)"
  shows "products (applyOrders env recs (applyOrders env recs st)) = products (applyOrders env recs st) \<and>
         list_all2 (\<lambda>d1 d2. if rewritten env recs (OrderData.wooCommerceId (IOrder.paths d1))
                            then restamped env (applyOrders env recs st)
                                   (applyOrders env recs (applyOrders env recs st)) d1 d2
                            else d2 = d1)
           (orders (applyOrders env recs st))
           (orders (applyOrders env recs (applyOrders env recs st)))"
proof -
  let ?S = "applyOrders env recs st"
  let ?T = "applyOrders env recs ?S"
  have d: "distinct (orderIds ?S)"
    using assms(2) by (rule applyOrders_distinct_orderIds)
  have c: "\<forall>w \<in> set recs. upsertOk env w \<longrightarrow>
        id_o w \<in> set (orderIds ?S) \<and>
        (\<forall>i \<in> set (map product_id (WooCommerceOrder.line_items w)). i \<in> set (productIds ?S) \<or> doomed env i)"
    using applyOrders_settled[OF assms(1), of _ recs _ st] applyOrders_stored[of _ recs env st]
    by blast
  from applyOrders_replay[OF d c] have p: "products ?T = products ?S"
    and r: "list_all2 (replayed env recs ?S ?T) (orders ?S) (orders ?T)"
    by auto
  from r have len: "length (orders ?S) = length (orders ?T)"
    by (rule list_all2_lengthD)
  have "list_all2 (\<lambda>d1 d2. if rewritten env recs (OrderData.wooCommerceId (IOrder.paths d1))
                            then restamped env ?S ?T d1 d2 else d2 = d1) (orders ?S) (orders ?T)"
  proof (rule list_all2_all_nthI[OF len])
    fix n assume n: "n < length (orders ?S)"
    let ?d1 = "orders ?S ! n" and ?d2 = "orders ?T ! n"
    from r n have q: "replayed env recs ?S ?T ?d1 ?d2"
      by (rule list_all2_nthD)
    from n have m: "?d1 \<in> set (orders ?S)" by simp
    show "if rewritten env recs (OrderData.wooCommerceId (IOrder.paths ?d1))
          then restamped env ?S ?T ?d1 ?d2 else ?d2 = ?d1"
    proof (cases "latest env recs (OrderData.wooCommerceId (IOrder.paths ?d1))")
      case None
      with q latest_None_iff[of env recs "OrderData.wooCommerceId (IOrder.paths ?d1)"]
      show ?thesis by (simp add: replayed_def)
    next
      case (Some u)
      from applyOrders_saturated[OF assms(2) m Some] have u: "IOrder.paths ?d1 = u" .
      from Some latest_None_iff[of env recs "OrderData.wooCommerceId (IOrder.paths ?d1)"]
      have rw: "rewritten env recs (OrderData.wooCommerceId (IOrder.paths ?d1))" by simp
      from q Some u have "restamped env ?S ?T ?d1 ?d2"
        by (simp add: replayed_def restamped_def)
      with rw show ?thesis by simp
    qed
  qed
  with p show ?thesis by blast
qed












lemma quietEnv_order_ok:
  "orderUpsertThrows (quietEnv pages) (orderData (quietEnv pages) (sampleOrder k is)) = None"
  by (simp add: quietEnv_def orderData_def sampleOrder_def sampleNewDate_def invalidDate_def)

lemma quietEnv_product_ok:
  "productUpsertThrows (quietEnv pages) (productData (quietEnv pages) (sampleProduct i)) = None"
  by (simp add: quietEnv_def productData_def sampleProduct_def sampleNewDate_def invalidDate_def)

lemma quietEnv_upsertOk: "upsertOk (quietEnv pages) (sampleOrder k is)"
  by (simp add: upsertOk_def quietEnv_order_ok)

lemma quietEnv_sel:
  "getOrders (quietEnv pages) p n a = Inr (pages p)"
  "getProduct (quietEnv pages) i = Inr (sampleProduct i)"
  "productFindOneThrows (quietEnv pages) i = None"
  "now (quietEnv pages) k = int k"
  by (simp_all add: quietEnv_def)

lemma sampleOrder_sel:
  "id_o (sampleOrder k is) = k"
  "map product_id (WooCommerceOrder.line_items (sampleOrder k is)) = is"
  "length (OrderData.line_items (orderData env (sampleOrder k is))) = length is"
  by (simp_all add: sampleOrder_def sampleItem_def orderData_def comp_def)

lemma sampleProduct_sel:
  "id_p (sampleProduct i) = i"
  "images (ProductData.attrs (productData env (sampleProduct i))) = []"
  "categories (ProductData.attrs (productData env (sampleProduct i))) = []"
  "tags (ProductData.attrs (productData env (sampleProduct i))) = []"
  by (simp_all add: sampleProduct_def productData_def sampleAttrs_def)

lemma onePage_two_syncs:
  "syncOrders (quietEnv onePage) [] emptyDb =
     Some (Inr (1, 0), afterFirstSync, [GetOrders 1 100 [], GetProduct 7]) \<and>
   syncOrders (quietEnv onePage) [] afterFirstSync =
     Some (Inr (1, 0), afterSecondSync, [GetOrders 1 100 []])"
proof -
  define env where "env = quietEnv onePage"
  define w where "w = sampleOrder 1 [7]"
  define st0 where "st0 = emptyDb\<lparr>orders := orders afterFirstSync, next_id := 4, writes := 1\<rparr>"
  have idw: "id_o w = 1" and li: "map product_id (WooCommerceOrder.line_items w) = [7]"
    and len: "length (OrderData.line_items (orderData env w)) = 1"
    by (simp_all add: w_def sampleOrder_sel)
  have f: "fetchOrders env (Suc 0) 100 [] = Inr [w]"
    by (simp add: fetchOrders_def env_def quietEnv_sel onePage_def w_def)
  have thr: "orderUpsertThrows env (orderData env w) = None"
      "productUpsertThrows env (productData env (sampleProduct 7)) = None"
      "productFindOneThrows env 7 = None" "getProduct env 7 = Inr (sampleProduct 7)"
      "now env k = int k" for k
    by (simp_all add: env_def w_def quietEnv_order_ok quietEnv_product_ok quietEnv_sel)
  have u1: "Order_findOneAndUpdate env 1 (orderData env w) emptyDb = Inr st0"
    by (simp add: Order_findOneAndUpdate_def thr emptyDb_def len insertedOrder_def)
       (simp add: st0_def afterFirstSync_def emptyDb_def env_def w_def)
  have p0: "products st0 = []" "next_id st0 = 4" "writes st0 = 1"
    by (simp_all add: st0_def emptyDb_def)
  have b1: "backfill env 7 st0 = (afterFirstSync, [GetProduct 7])"
    by (simp add: backfill_def fetchProduct_def syncProduct_def Product_findOneAndUpdate_def thr p0
          sampleProduct_sel insertedProduct_def)
       (simp add: st0_def emptyDb_def afterFirstSync_def env_def)
  have o1: "syncOrder env w emptyDb = (None, afterFirstSync, [GetProduct 7])"
    by (simp add: syncOrder_def idw u1 syncProductsFromOrder_def li newSet_def b1)
  have r1: "syncOrders env [] emptyDb = Some (Inr (1, 0), afterFirstSync, [GetOrders 1 100 [], GetProduct 7])"
    unfolding syncOrders_def
    by (subst syncLoop.simps) (simp add: f o1 perPage_def)
  have k1: "\<exists>d \<in> set (orders afterFirstSync). OrderData.wooCommerceId (IOrder.paths d) = 1"
    by (simp add: afterFirstSync_def sampleOrder_sel)
  have u2: "Order_findOneAndUpdate env 1 (orderData env w) afterFirstSync = Inr afterSecondSync"
    by (simp add: Order_findOneAndUpdate_def thr k1 len)
       (simp add: afterFirstSync_def afterSecondSync_def updatedOrder_def sampleOrder_sel
          thr len env_def w_def quietEnv_sel)
  have b2: "backfill env 7 afterSecondSync = (afterSecondSync, [])"
    by (simp add: backfill_def thr)
       (simp add: afterSecondSync_def sampleProduct_sel)
  have o2: "syncOrder env w afterFirstSync = (None, afterSecondSync, [])"
    by (simp add: syncOrder_def idw u2 syncProductsFromOrder_def li newSet_def b2)
  have r2: "syncOrders env [] afterFirstSync = Some (Inr (1, 0), afterSecondSync, [GetOrders 1 100 []])"
    unfolding syncOrders_def
    by (subst syncLoop.simps) (simp add: f o2 perPage_def)
  from r1 r2 show ?thesis unfolding env_def by blast
qed

lemma noCatalogEnv_order_ok:
  "orderUpsertThrows noCatalogEnv (orderData noCatalogEnv (sampleOrder k is)) = None"
  by (simp add: noCatalogEnv_def quietEnv_def orderData_def sampleOrder_def sampleNewDate_def
        invalidDate_def)

lemma brokenAfterOne_order_ok:
  "orderUpsertThrows brokenAfterOne (orderData brokenAfterOne (sampleOrder k is)) = None"
  by (simp add: brokenAfterOne_def quietEnv_def orderData_def sampleOrder_def sampleNewDate_def
        invalidDate_def)

lemma secondFailsEnv_order:
  "orderUpsertThrows secondFailsEnv (orderData secondFailsEnv (sampleOrder k is)) =
     (if k = 2 then Some (Thrown ''write failed'') else None)"
  by (simp add: secondFailsEnv_def quietEnv_def orderData_def sampleOrder_def sampleNewDate_def
        invalidDate_def)

text \<open>
  A record whose modification date does not parse is not written: the upsert throws,
  and the record counts as an error of the pass.
\<close>

lemma quietEnv_rejects_unparseable_date:
  "\<not> upsertOk (quietEnv pages) ((sampleOrder k is)\<lparr>WooCommerceOrder.date_modified := ''2025-01-02T00''\<rparr>)"
  by (simp add: upsertOk_def quietEnv_def orderData_def sampleNewDate_def)

section \<open>The claims\<close>

text \<open>
  C9. A scheduled cycle whose connection test is false leaves the store as it was,
  sends the probe and no other request, and logs the start and the skip and nothing
  else: the sync pass is not run and no failure of a sync is logged. The manual sync
  trigger returns exactly what the sync pass returns, with its store and requests, and
  never sends the probe; the manual cleanup trigger returns what the retention pass
  returns and sends no request.
\<close>

theorem scheduler_gate_and_manual_triggers:
  "(\<not> SyncService_testConnection env \<longrightarrow>
      runDailySync env a st =
        Some (st, [GetProbe],
              [Log LevelInfo ''Starting daily sync process...'' NoMeta,
               Log LevelError ''WooCommerce connection failed, skipping sync'' NoMeta])) \<and>
   (\<forall>r st' rs. syncOrders env a st = Some (r, st', rs) \<longrightarrow>
      triggerManualSync env a st =
        Some (r, st', rs, [Log LevelInfo ''Manual sync triggered'' NoMeta]) \<and>
      GetProbe \<notin> set rs) \<and>
   (syncOrders env a st = None \<longrightarrow> triggerManualSync env a st = None) \<and>
   triggerManualCleanup env t st =
     (fst (cleanupOldOrders env t st), snd (cleanupOldOrders env t st), [],
      [Log LevelInfo ''Manual cleanup triggered'' NoMeta])"
proof -
  have probe: "GetProbe \<notin> set rs" if s: "syncOrders env a st = Some (r, st', rs)" for r st' rs
  proof -
    from s have l: "syncLoop env a 1 0 0 st [] = Some (r, st', rs)"
      by (simp add: syncOrders_def)
    from walk_exists[OF l] obtain pgs fin where "walk env a 1 pgs fin" by blast
    from walk_result[OF this, of 0 0 st "[]"] l show ?thesis by auto
  qed
  show ?thesis
    by (auto simp: runDailySync_def triggerManualSync_def triggerManualCleanup_def probe
          split: prod.splits)
qed

theorem scheduler_gate_and_manual_triggers_witness:
  "\<not> SyncService_testConnection downEnv \<and>
   runDailySync downEnv [] emptyDb =
     Some (emptyDb, [GetProbe],
           [Log LevelInfo ''Starting daily sync process...'' NoMeta,
            Log LevelError ''WooCommerce connection failed, skipping sync'' NoMeta]) \<and>
   syncOrders (quietEnv noPages) [] emptyDb = Some (Inr (0, 0), emptyDb, [GetOrders 1 100 []]) \<and>
   triggerManualSync (quietEnv noPages) [] emptyDb =
     Some (Inr (0, 0), emptyDb, [GetOrders 1 100 []],
           [Log LevelInfo ''Manual sync triggered'' NoMeta]) \<and>
   GetProbe \<notin> set [GetOrders 1 100 []]"
proof -
  have d: "\<not> SyncService_testConnection downEnv"
    by (simp add: SyncService_testConnection_def testConnection_def downEnv_def quietEnv_def)
  have s: "syncOrders (quietEnv noPages) [] emptyDb = Some (Inr (0, 0), emptyDb, [GetOrders 1 100 []])"
    unfolding syncOrders_def
    by (subst syncLoop.simps) (simp add: fetchOrders_def quietEnv_def noPages_def perPage_def)
  from scheduler_gate_and_manual_triggers[of downEnv "[]" emptyDb] d
    scheduler_gate_and_manual_triggers[of "quietEnv noPages" "[]" emptyDb] s
  show ?thesis by simp
qed



text \<open>
  C4, as the code has it. \<^verbatim>\<open>syncProductsFromOrder\<close> catches every failure of a
  backfill and only logs it, so such a failure is not counted: an order whose own
  upsert does not throw adds one to \<^verbatim>\<open>synced\<close> and nothing to \<^verbatim>\<open>errors\<close>, whatever
  happens to the products it refers to, and its document is in the store afterwards.
\<close>

theorem backfill_failure_not_counted:
  assumes "orderUpsertThrows env (orderData env w) = None"
  shows "\<exists>st' rs'. syncPage env [w] (synced, errors, st, rs) = (Suc synced, errors, st', rs') \<and>
           (\<exists>d \<in> set (orders st'). IOrder.paths d = orderData env w)"
proof -
  have ok: "upsertOk env w" using assms by (simp add: upsertOk_def)
  from syncPage_eq[of env "[w]" synced errors st rs] ok obtain rs' where
    "syncPage env [w] (synced, errors, st, rs) =
       (Suc synced, errors, fst (snd (syncOrder env w st)), rs @ rs')"
    by auto
  with syncOrder_stored[OF assms, of st] show ?thesis by blast
qed

theorem backfill_failure_not_counted_witness:
  "orderUpsertThrows noCatalogEnv (orderData noCatalogEnv (sampleOrder 1 [7])) = None \<and>
   getProduct noCatalogEnv 7 = Inl (Thrown ''timeout'') \<and>
   (\<exists>st' rs'. syncPage noCatalogEnv [sampleOrder 1 [7]] (0, 0, emptyDb, []) = (Suc 0, 0, st', rs') \<and>
      (\<exists>d \<in> set (orders st'). IOrder.paths d = orderData noCatalogEnv (sampleOrder 1 [7])))"
proof -
  have h: "orderUpsertThrows noCatalogEnv (orderData noCatalogEnv (sampleOrder 1 [7])) = None"
    by (rule noCatalogEnv_order_ok)
  have g: "getProduct noCatalogEnv 7 = Inl (Thrown ''timeout'')"
    by (simp add: noCatalogEnv_def quietEnv_def)
  from backfill_failure_not_counted[OF h, of 0 0 emptyDb "[]"] h g show ?thesis by blast
qed

text \<open>
  C4, as it is stated, fails: the remote serves one order with a line item for product
  7 and fails the request for that product; the pass returns one synced and no error.
\<close>

theorem backfill_failure_counted_counterexample:
  "getProduct noCatalogEnv 7 = Inl (Thrown ''timeout'') \<and>
   map_option fst (syncOrders noCatalogEnv [] emptyDb) = Some (Inr (1, 0)) \<and>
   map_option (snd \<circ> snd) (syncOrders noCatalogEnv [] emptyDb) =
     Some [GetOrders 1 100 [], GetProduct 7]"
proof -
  define w where "w = sampleOrder 1 [7]"
  define st1 where "st1 = emptyDb\<lparr>orders := [insertedOrder noCatalogEnv (orderData noCatalogEnv w) emptyDb],
                  next_id := 4, writes := 1\<rparr>"
  have idw: "id_o w = 1" and li: "map product_id (WooCommerceOrder.line_items w) = [7]"
    by (simp_all add: w_def sampleOrder_def sampleItem_def)
  have f: "fetchOrders noCatalogEnv (Suc 0) 100 [] = Inr [w]"
    by (simp add: fetchOrders_def noCatalogEnv_def quietEnv_def onePage_def w_def)
  have h: "orderUpsertThrows noCatalogEnv (orderData noCatalogEnv w) = None"
    unfolding w_def by (rule noCatalogEnv_order_ok)
  have len: "length (OrderData.line_items (orderData noCatalogEnv w)) = 1"
    by (simp add: w_def sampleOrder_sel)
  have u: "Order_findOneAndUpdate noCatalogEnv 1 (orderData noCatalogEnv w) emptyDb = Inr st1"
    by (simp add: Order_findOneAndUpdate_def h len)
       (simp add: emptyDb_def st1_def)
  have p: "products st1 = []"
    by (simp add: st1_def emptyDb_def)
  have b: "backfill noCatalogEnv 7 st1 = (st1, [GetProduct 7])"
    using p by (simp add: backfill_def fetchProduct_def noCatalogEnv_def quietEnv_def)
  have o: "syncOrder noCatalogEnv w emptyDb = (None, st1, [GetProduct 7])"
    by (simp add: syncOrder_def idw u syncProductsFromOrder_def li newSet_def b)
  have "syncOrders noCatalogEnv [] emptyDb = Some (Inr (1, 0), st1, [GetOrders 1 100 [], GetProduct 7])"
    unfolding syncOrders_def
    by (subst syncLoop.simps) (simp add: f o perPage_def)
  then show ?thesis by (simp add: noCatalogEnv_def quietEnv_def)
qed

text \<open>
  C2, as the code has it. When the remote serves \<open>n\<close> pages of at least one hundred
  records and then a page of fewer (an empty one too), the pass returns, and the
  requests for pages it sent are those for pages 1 to \<open>n + 1\<close>, in this order, each
  once, for one hundred records a page.
\<close>

theorem sync_pass_stops_at_first_short_page:
  assumes "\<forall>i<n. \<exists>b. getOrders env (Suc i) perPage a = Inr b \<and> perPage \<le> length b"
    and "getOrders env (Suc n) perPage a = Inr b"
    and "length b < perPage"
  shows "\<exists>r st' rs. syncOrders env a st = Some (Inr r, st', rs) \<and>
           filter isGetOrders rs = map (\<lambda>q. GetOrders q 100 a) [1 ..< n + 2]"
proof -
  from assms(1) obtain f where f: "\<forall>i<n. getOrders env (Suc i) perPage a = Inr (f i) \<and> perPage \<le> length (f i)"
    by metis
  define pgs where "pgs = map f [0 ..< n]"
  have fp: "fullPages env a 1 pgs"
    using f by (simp add: fullPages_def pgs_def)
  have w: "walk env a 1 pgs (Inr b)"
    using fp assms(2,3) by (simp add: walk_def pgs_def)
  from walk_result[OF w, of 0 0 st "[]"] show ?thesis
    by (auto simp: syncOrders_def pgs_def perPage_def)
qed

theorem sync_pass_stops_at_first_short_page_witness:
  "getOrders (quietEnv twoPages) 1 perPage [] = Inr (replicate 100 (sampleOrder 1 [])) \<and>
   perPage \<le> length (replicate 100 (sampleOrder 1 [])) \<and>
   getOrders (quietEnv twoPages) 2 perPage [] = Inr (replicate 50 (sampleOrder 2 [])) \<and>
   length (replicate 50 (sampleOrder 2 [])) < perPage \<and>
   (\<exists>r st' rs. syncOrders (quietEnv twoPages) [] emptyDb = Some (Inr r, st', rs) \<and>
      filter isGetOrders rs = [GetOrders 1 100 [], GetOrders 2 100 []])"
proof -
  have 1: "\<forall>i<1. \<exists>b. getOrders (quietEnv twoPages) (Suc i) perPage [] = Inr b \<and> perPage \<le> length b"
    by (simp add: quietEnv_def twoPages_def perPage_def)
  have 2: "getOrders (quietEnv twoPages) (Suc 1) perPage [] = Inr (replicate 50 (sampleOrder 2 []))"
    by (simp add: quietEnv_def twoPages_def)
  have 3: "length (replicate 50 (sampleOrder 2 [])) < perPage"
    by (simp add: perPage_def)
  have u: "[1 ..< 1 + 2] = [1, 2::nat]"
    by (simp add: upt_rec)
  have g1: "getOrders (quietEnv twoPages) 1 perPage [] = Inr (replicate 100 (sampleOrder 1 []))"
    by (simp add: quietEnv_def twoPages_def)
  have g2: "getOrders (quietEnv twoPages) 2 perPage [] = Inr (replicate 50 (sampleOrder 2 []))"
    by (simp add: quietEnv_def twoPages_def)
  have l1: "perPage \<le> length (replicate 100 (sampleOrder 1 []))"
    by (simp add: perPage_def)
  from sync_pass_stops_at_first_short_page[OF 1 2 3, of emptyDb, unfolded u]
  have "\<exists>r st' rs. syncOrders (quietEnv twoPages) [] emptyDb = Some (Inr r, st', rs) \<and>
      filter isGetOrders rs = [GetOrders 1 100 [], GetOrders 2 100 []]"
    by simp
  with g1 g2 l1 3 show ?thesis by blast
qed

text \<open>
  C2, as it is stated, fails: every page fetch of this remote succeeds, each page has
  one hundred records, and the pass never returns.
\<close>

theorem sync_pass_terminates_counterexample:
  "syncOrders (quietEnv endlessPages) [] emptyDb = None"
  unfolding syncOrders_def
  by (rule endless_never_returns) (simp add: quietEnv_def endlessPages_def perPage_def)

text \<open>
  C3. When the remote serves the full pages \<open>pgs\<close> and then a short page \<open>b\<close>, the
  pass returns; \<^verbatim>\<open>synced\<close> is the number of records of all these pages whose upsert
  does not throw, \<^verbatim>\<open>errors\<close> the number of those whose upsert throws, and every
  record whose upsert does not throw has its document in the store, wherever in its
  page and in whichever page it stands.
\<close>

theorem record_failure_is_isolated:
  assumes "fullPages env a 1 pgs"
    and "getOrders env (Suc (length pgs)) perPage a = Inr b"
    and "length b < perPage"
  shows "\<exists>st' rs. syncOrders env a st =
             Some (Inr (length (filter (upsertOk env) (concat pgs @ b)),
                        length (filter (\<lambda>w. \<not> upsertOk env w) (concat pgs @ b))), st', rs) \<and>
           (\<forall>w \<in> set (concat pgs @ b). upsertOk env w \<longrightarrow>
              (\<exists>d \<in> set (orders st'). OrderData.wooCommerceId (IOrder.paths d) = id_o w))"
proof -
  have w: "walk env a 1 pgs (Inr b)"
    using assms by (simp add: walk_def)
  have "id_o x \<in> set (orderIds (applyOrders env (concat pgs @ b) st))"
    if "x \<in> set (concat pgs @ b)" "upsertOk env x" for x
    using that by (rule applyOrders_stored)
  then have "\<forall>x \<in> set (concat pgs @ b). upsertOk env x \<longrightarrow>
      (\<exists>d \<in> set (orders (applyOrders env (concat pgs @ b) st)). OrderData.wooCommerceId (IOrder.paths d) = id_o x)"
    unfolding in_orderIds by blast
  with walk_result[OF w, of 0 0 st "[]"] show ?thesis
    by (auto simp: syncOrders_def fetched_def)
qed

theorem record_failure_is_isolated_witness:
  "fullPages secondFailsEnv [] 1 [] \<and>
   getOrders secondFailsEnv (Suc (length ([] :: WooCommerceOrder list list))) perPage [] =
     Inr [sampleOrder 1 [], sampleOrder 2 [], sampleOrder 3 []] \<and>
   length [sampleOrder 1 [], sampleOrder 2 [], sampleOrder 3 []] < perPage \<and>
   upsertOk secondFailsEnv (sampleOrder 1 []) \<and>
   \<not> upsertOk secondFailsEnv (sampleOrder 2 []) \<and>
   upsertOk secondFailsEnv (sampleOrder 3 []) \<and>
   (\<exists>st' rs. syncOrders secondFailsEnv [] emptyDb = Some (Inr (2, 1), st', rs) \<and>
      (\<exists>d \<in> set (orders st'). OrderData.wooCommerceId (IOrder.paths d) = 1) \<and>
      (\<exists>d \<in> set (orders st'). OrderData.wooCommerceId (IOrder.paths d) = 3))"
proof -
  have 1: "fullPages secondFailsEnv [] 1 []"
    by (simp add: fullPages_def)
  have 2: "getOrders secondFailsEnv (Suc (length ([] :: WooCommerceOrder list list))) perPage [] =
     Inr [sampleOrder 1 [], sampleOrder 2 [], sampleOrder 3 []]"
    by (simp add: secondFailsEnv_def quietEnv_def threeOrders_def)
  have 3: "length [sampleOrder 1 [], sampleOrder 2 [], sampleOrder 3 []] < perPage"
    by (simp add: perPage_def)
  have ok: "upsertOk secondFailsEnv (sampleOrder 1 [])" "\<not> upsertOk secondFailsEnv (sampleOrder 2 [])"
      "upsertOk secondFailsEnv (sampleOrder 3 [])"
    by (simp_all add: upsertOk_def secondFailsEnv_order)
  have ids: "id_o (sampleOrder 1 []) = 1" "id_o (sampleOrder 3 []) = 3"
    by (simp_all add: sampleOrder_def)
  from record_failure_is_isolated[OF 1 2 3, of emptyDb] obtain st' rs where
    r: "syncOrders secondFailsEnv [] emptyDb =
          Some (Inr (length (filter (upsertOk secondFailsEnv) (concat [] @ [sampleOrder 1 [], sampleOrder 2 [], sampleOrder 3 []])),
                     length (filter (\<lambda>w. \<not> upsertOk secondFailsEnv w) (concat [] @ [sampleOrder 1 [], sampleOrder 2 [], sampleOrder 3 []]))), st', rs)"
    and p: "\<forall>w \<in> set (concat [] @ [sampleOrder 1 [], sampleOrder 2 [], sampleOrder 3 []]). upsertOk secondFailsEnv w \<longrightarrow>
              (\<exists>d \<in> set (orders st'). OrderData.wooCommerceId (IOrder.paths d) = id_o w)"
    by blast
  from r ok have r': "syncOrders secondFailsEnv [] emptyDb = Some (Inr (2, 1), st', rs)"
    by simp
  from p ok ids have "(\<exists>d \<in> set (orders st'). OrderData.wooCommerceId (IOrder.paths d) = 1)"
      "(\<exists>d \<in> set (orders st'). OrderData.wooCommerceId (IOrder.paths d) = 3)"
    by auto
  with 1 2 3 ok r' show ?thesis by blast
qed

text \<open>
  C7. A pass that throws throws the error of \<^verbatim>\<open>fetchOrders\<close> for a page whose
  request failed, and that request is the last one it sent. When the remote serves the
  full pages \<open>pgs\<close> and fails the request for the next page, the pass throws that
  error, sends no request after the failed one, and leaves the store exactly as the
  processing of the records of \<open>pgs\<close> made it: every record of these pages whose
  upsert did not throw has its document in it.
\<close>

theorem only_page_fetch_failure_is_fatal:
  "(\<forall>e st' rs. syncOrders env a st = Some (Inl e, st', rs) \<longrightarrow>
      (\<exists>p c. e = FailedToFetchOrders c \<and> getOrders env p perPage a = Inl c)) \<and>
   (fullPages env a 1 pgs \<and> getOrders env (Suc (length pgs)) perPage a = Inl c \<longrightarrow>
      (\<exists>rs. syncOrders env a st =
               Some (Inl (FailedToFetchOrders c), applyOrders env (concat pgs) st,
                     rs @ [GetOrders (Suc (length pgs)) perPage a])) \<and>
      (\<forall>w \<in> set (concat pgs). upsertOk env w \<longrightarrow>
         (\<exists>d \<in> set (orders (applyOrders env (concat pgs) st)).
            OrderData.wooCommerceId (IOrder.paths d) = id_o w)))"
proof -
  have A: "\<exists>p c. e = FailedToFetchOrders c \<and> getOrders env p perPage a = Inl c"
    if s: "syncOrders env a st = Some (Inl e, st', rs)" for e st' rs
  proof -
    from syncOrders_applies[OF s] obtain pgs' fin where
      w: "walk env a 1 pgs' fin" and
      r: "Inl e = (case fin of Inl c \<Rightarrow> Inl (FailedToFetchOrders c)
                  | Inr b \<Rightarrow> Inr (length (filter (upsertOk env) (fetched pgs' fin)),
                                 length (filter (\<lambda>w. \<not> upsertOk env w) (fetched pgs' fin))))"
      by blast
    from r obtain c' where "fin = Inl c'" "e = FailedToFetchOrders c'"
      by (cases fin) auto
    with w show ?thesis
      by (auto simp: walk_def)
  qed
  have B: "\<exists>rs. syncOrders env a st =
               Some (Inl (FailedToFetchOrders c), applyOrders env (concat pgs) st,
                     rs @ [GetOrders (Suc (length pgs)) perPage a])"
    if h: "fullPages env a 1 pgs" "getOrders env (Suc (length pgs)) perPage a = Inl c"
  proof -
    from h(2) have "getOrders env (1 + length pgs) perPage a = Inl c" by simp
    from walk_fail_result[OF h(1) this, of 0 0 st "[]"] show ?thesis
      by (auto simp: syncOrders_def)
  qed
  have C: "\<exists>d \<in> set (orders (applyOrders env (concat pgs) st)).
            OrderData.wooCommerceId (IOrder.paths d) = id_o w"
    if "w \<in> set (concat pgs)" "upsertOk env w" for w
    using applyOrders_stored[OF that, of st] unfolding in_orderIds .
  from A B C show ?thesis by blast
qed

theorem only_page_fetch_failure_is_fatal_witness:
  "fullPages brokenAfterOne [] 1 [endlessPages 1] \<and>
   getOrders brokenAfterOne (Suc (length [endlessPages 1])) perPage [] = Inl (Thrown ''ETIMEDOUT'') \<and>
   sampleOrder 1 [] \<in> set (concat [endlessPages 1]) \<and>
   upsertOk brokenAfterOne (sampleOrder 1 []) \<and>
   (\<exists>rs. syncOrders brokenAfterOne [] emptyDb =
            Some (Inl (FailedToFetchOrders (Thrown ''ETIMEDOUT'')),
                  applyOrders brokenAfterOne (concat [endlessPages 1]) emptyDb,
                  rs @ [GetOrders (Suc (length [endlessPages 1])) perPage []])) \<and>
   (\<exists>d \<in> set (orders (applyOrders brokenAfterOne (concat [endlessPages 1]) emptyDb)).
      OrderData.wooCommerceId (IOrder.paths d) = id_o (sampleOrder 1 [])) \<and>
   (\<exists>p c. FailedToFetchOrders (Thrown ''ETIMEDOUT'') = FailedToFetchOrders c \<and>
      getOrders brokenAfterOne p perPage [] = Inl c)"
proof -
  have 1: "fullPages brokenAfterOne [] 1 [endlessPages 1]"
    by (simp add: fullPages_def brokenAfterOne_def quietEnv_def endlessPages_def perPage_def)
  have 2: "getOrders brokenAfterOne (Suc (length [endlessPages 1])) perPage [] = Inl (Thrown ''ETIMEDOUT'')"
    by (simp add: brokenAfterOne_def quietEnv_def)
  have 3: "sampleOrder 1 [] \<in> set (concat [endlessPages 1])"
    by (simp add: endlessPages_def)
  have 4: "upsertOk brokenAfterOne (sampleOrder 1 [])"
    by (simp add: upsertOk_def brokenAfterOne_order_ok)
  note t = only_page_fetch_failure_is_fatal[of brokenAfterOne "[]" emptyDb "[endlessPages 1]" "Thrown ''ETIMEDOUT''"]
  from t 1 2 obtain rs where r: "syncOrders brokenAfterOne [] emptyDb =
            Some (Inl (FailedToFetchOrders (Thrown ''ETIMEDOUT'')),
                  applyOrders brokenAfterOne (concat [endlessPages 1]) emptyDb,
                  rs @ [GetOrders (Suc (length [endlessPages 1])) perPage []])"
    by blast
  from t r have 5: "\<exists>p c. FailedToFetchOrders (Thrown ''ETIMEDOUT'') = FailedToFetchOrders c \<and>
      getOrders brokenAfterOne p perPage [] = Inl c"
    by blast
  from t 1 2 3 4 have 6: "\<exists>d \<in> set (orders (applyOrders brokenAfterOne (concat [endlessPages 1]) emptyDb)).
      OrderData.wooCommerceId (IOrder.paths d) = id_o (sampleOrder 1 [])"
    by blast
  from 1 2 3 4 r 5 6 show ?thesis by blast
qed

text \<open>
  C8. A store in which no two orders and no two products carry the same remote
  identifier is again such a store after any sequence of sync passes that return,
  whatever the remotes serve and whatever fails; the empty store is such a store. After
  an order is processed whose upsert does not throw, exactly one document carries its
  identifier.
\<close>

theorem one_record_per_remote_identifier:
  "(distinct (orderIds st) \<and> distinct (productIds st) \<and> syncPasses ps st = Some st' \<longrightarrow>
      distinct (orderIds st') \<and> distinct (productIds st')) \<and>
   (distinct (orderIds st) \<and> upsertOk env w \<longrightarrow>
      length (filter (\<lambda>d. OrderData.wooCommerceId (IOrder.paths d) = id_o w)
                (orders (fst (snd (syncOrder env w st))))) = 1) \<and>
   distinct (orderIds emptyDb) \<and> distinct (productIds emptyDb)"
proof -
  have B: "length (filter (\<lambda>d. OrderData.wooCommerceId (IOrder.paths d) = id_o w)
                (orders (fst (snd (syncOrder env w st))))) = 1"
    if d: "distinct (orderIds st)" and ok: "upsertOk env w"
  proof -
    let ?st = "fst (snd (syncOrder env w st))"
    from d ok have "distinct (orderIds ?st)" "id_o w \<in> set (orderIds ?st)"
      by (auto simp: syncOrder_orderIds)
    from distinct_count_one[OF this] have "length (filter (\<lambda>x. x = id_o w) (orderIds ?st)) = 1" .
    then show ?thesis
      by (simp add: orderIds_def filter_map comp_def)
  qed
  have E: "distinct (orderIds emptyDb)" "distinct (productIds emptyDb)"
    by (simp_all add: orderIds_def productIds_def emptyDb_def)
  from syncPasses_distinct[of ps st st'] B E show ?thesis by blast
qed

theorem one_record_per_remote_identifier_witness:
  "distinct (orderIds emptyDb) \<and> distinct (productIds emptyDb) \<and>
   upsertOk (quietEnv onePage) (sampleOrder 1 [7]) \<and>
   (\<exists>st'. syncPasses [(quietEnv onePage, []), (quietEnv onePage, [])] emptyDb = Some st' \<and>
      distinct (orderIds st') \<and> distinct (productIds st')) \<and>
   length (filter (\<lambda>d. OrderData.wooCommerceId (IOrder.paths d) = id_o (sampleOrder 1 [7]))
             (orders (fst (snd (syncOrder (quietEnv onePage) (sampleOrder 1 [7]) emptyDb))))) = 1"
proof -
  have g: "getOrders (quietEnv onePage) 1 perPage [] = Inr [sampleOrder 1 [7]]"
    by (simp add: quietEnv_def onePage_def)
  have l: "length [sampleOrder 1 [7]] < perPage"
    by (simp add: perPage_def)
  from syncOrders_returns[OF g l, of emptyDb] obtain r1 st1 rs1 where
    1: "syncOrders (quietEnv onePage) [] emptyDb = Some (r1, st1, rs1)" by blast
  from syncOrders_returns[OF g l, of st1] obtain r2 st2 rs2 where
    2: "syncOrders (quietEnv onePage) [] st1 = Some (r2, st2, rs2)" by blast
  from 1 2 have p: "syncPasses [(quietEnv onePage, []), (quietEnv onePage, [])] emptyDb = Some st2"
    by simp
  have ok: "upsertOk (quietEnv onePage) (sampleOrder 1 [7])"
    by (rule quietEnv_upsertOk)
  note t = one_record_per_remote_identifier[of emptyDb
      "[(quietEnv onePage, []), (quietEnv onePage, [])]" st2 "quietEnv onePage" "sampleOrder 1 [7]"]
  from t p ok show ?thesis by blast
qed

text \<open>
  C1. Whatever the retention pass returns: when the documents of the product
  collection that carry an identifier are not the same after the pass as before it,
  no order of the store the pass leaves has a line item with that identifier. When
  \<^verbatim>\<open>Order.find\<close> does not throw, the orders the pass leaves are those the first loop
  left, which are the orders the second loop looks at, and the first loop deletes no
  product.
\<close>

theorem retention_deletes_only_unreferenced_products:
  "(productsWithId (snd (cleanupOldOrders env t st)) k \<noteq> productsWithId st k \<longrightarrow>
      \<not> orderWithProduct (snd (cleanupOldOrders env t st)) k) \<and>
   (orderFindThrows env t = None \<longrightarrow>
      orders (snd (cleanupOldOrders env t st)) =
        orders (snd (snd (deleteOrders env (ordersToDelete t st) (0, [], st)))) \<and>
      products (snd (snd (deleteOrders env (ordersToDelete t st) (0, [], st)))) = products st \<and>
      snd (cleanupOldOrders env t st) =
        snd (cleanupUnusedProducts env
               (fst (snd (deleteOrders env (ordersToDelete t st) (0, [], st))))
               (snd (snd (deleteOrders env (ordersToDelete t st) (0, [], st))))))"
proof (cases "orderFindThrows env t")
  case (Some c)
  then show ?thesis by (simp add: cleanupOldOrders_def)
next
  case None
  obtain n ids st1 where d: "deleteOrders env (ordersToDelete t st) (0, [], st) = (n, ids, st1)"
    by (metis prod_cases3)
  have p1: "products st1 = products st"
    using deleteOrders_products[of env "ordersToDelete t st" 0 "[]" st] d by simp
  have e: "snd (cleanupOldOrders env t st) = snd (cleanupLoop env ids (0, st1))"
    by (simp add: cleanupOldOrders_def None d cleanupUnusedProducts_def case_prod_beta)
  have o: "orders (snd (cleanupLoop env ids (0, st1))) = orders st1"
    by (rule cleanupLoop_orders)
  have "\<not> orderWithProduct (snd (cleanupLoop env ids (0, st1))) k"
    if "productsWithId (snd (cleanupLoop env ids (0, st1))) k \<noteq> productsWithId st k"
  proof -
    from that p1 have "productsWithId (snd (cleanupLoop env ids (0, st1))) k \<noteq> productsWithId st1 k"
      by (simp add: productsWithId_def)
    from cleanupLoop_changed[OF this] orderWithProduct_cong[OF o] show ?thesis by simp
  qed
  with e o p1 d None show ?thesis
    by (simp add: cleanupUnusedProducts_def)
qed

theorem retention_deletes_only_unreferenced_products_witness:
  "orderFindThrows (quietEnv noPages) 100 = None \<and>
   productsWithId (snd (cleanupOldOrders (quietEnv noPages) 100 retentionDb)) 7 = [] \<and>
   productsWithId retentionDb 7 = [sampleProductDoc 2 7] \<and>
   \<not> orderWithProduct (snd (cleanupOldOrders (quietEnv noPages) 100 retentionDb)) 7 \<and>
   orders (snd (cleanupOldOrders (quietEnv noPages) 100 retentionDb)) = [sampleOrderDoc 1 2 [9] 500] \<and>
   cleanupOldOrders (quietEnv noPages) 100 retentionDb =
     (Inr (1, 1),
      \<lparr>orders = [sampleOrderDoc 1 2 [9] 500],
       products = [sampleProductDoc 3 8, sampleProductDoc 4 9],
       next_id = 400, writes = 5\<rparr>)"
proof -
  have f: "orderFindThrows (quietEnv noPages) 100 = None"
    by (simp add: quietEnv_def)
  have c: "cleanupOldOrders (quietEnv noPages) 100 retentionDb =
     (Inr (1, 1),
      \<lparr>orders = [sampleOrderDoc 1 2 [9] 500],
       products = [sampleProductDoc 3 8, sampleProductDoc 4 9],
       next_id = 400, writes = 5\<rparr>)"
    by (simp add: cleanupOldOrders_def ordersToDelete_def retentionDb_def quietEnv_def
          sampleOrderDoc_def sampleProductDoc_def cleanupUnusedProducts_def setAdd_def
          orderWithProduct_def orderData_def productData_def sampleOrder_def sampleItem_def
          sampleProduct_def)
  have a: "productsWithId (snd (cleanupOldOrders (quietEnv noPages) 100 retentionDb)) 7 = []"
    unfolding c by (simp add: productsWithId_def sampleProductDoc_def productData_def sampleProduct_def)
  have b: "productsWithId retentionDb 7 = [sampleProductDoc 2 7]"
    by (simp add: productsWithId_def retentionDb_def sampleProductDoc_def productData_def sampleProduct_def)
  have o: "orders (snd (cleanupOldOrders (quietEnv noPages) 100 retentionDb)) = [sampleOrderDoc 1 2 [9] 500]"
    unfolding c by simp
  from a b have n: "productsWithId (snd (cleanupOldOrders (quietEnv noPages) 100 retentionDb)) 7 \<noteq>
      productsWithId retentionDb 7"
    by simp
  from retention_deletes_only_unreferenced_products[of "quietEnv noPages" 100 retentionDb 7] n
  have "\<not> orderWithProduct (snd (cleanupOldOrders (quietEnv noPages) 100 retentionDb)) 7"
    by blast
  with f a b o c show ?thesis by blast
qed

text \<open>
  C10. Whatever the retention pass returns, the documents of the product collection
  that carry an identifier are the same after the pass as before it, unless the
  identifier stands in a line item of an order that the pass selected for deletion.
\<close>

theorem retention_touches_only_candidates:
  "k \<notin> candidateIds t st \<longrightarrow> productsWithId (snd (cleanupOldOrders env t st)) k = productsWithId st k"
proof (cases "orderFindThrows env t")
  case (Some c)
  then show ?thesis by (simp add: cleanupOldOrders_def)
next
  case None
  obtain n ids st1 where d: "deleteOrders env (ordersToDelete t st) (0, [], st) = (n, ids, st1)"
    by (metis prod_cases3)
  have p1: "products st1 = products st"
    using deleteOrders_products[of env "ordersToDelete t st" 0 "[]" st] d by simp
  have i: "set ids = candidateIds t st"
    using deleteOrders_ids[of env "ordersToDelete t st" 0 "[]" st] d
    by (simp add: candidateIds_def)
  have e: "snd (cleanupOldOrders env t st) = snd (cleanupLoop env ids (0, st1))"
    by (simp add: cleanupOldOrders_def None d cleanupUnusedProducts_def case_prod_beta)
  show ?thesis
  proof
    assume k: "k \<notin> candidateIds t st"
    have "productsWithId (snd (cleanupLoop env ids (0, st1))) k = productsWithId st1 k"
      using cleanupLoop_changed[of env ids 0 st1 k] k i by blast
    with e p1 show "productsWithId (snd (cleanupOldOrders env t st)) k = productsWithId st k"
      by (simp add: productsWithId_def)
  qed
qed

theorem retention_touches_only_candidates_witness:
  "candidateIds 100 retentionDb = {7} \<and>
   productsWithId (snd (cleanupOldOrders (quietEnv noPages) 100 retentionDb)) 8 = productsWithId retentionDb 8 \<and>
   productsWithId retentionDb 8 = [sampleProductDoc 3 8] \<and>
   \<not> orderWithProduct retentionDb 8"
proof -
  have c: "candidateIds 100 retentionDb = {7}"
    by (simp add: candidateIds_def ordersToDelete_def retentionDb_def sampleOrderDoc_def
          orderData_def sampleOrder_def sampleItem_def)
  have b: "productsWithId retentionDb 8 = [sampleProductDoc 3 8]"
    by (simp add: productsWithId_def retentionDb_def sampleProductDoc_def productData_def sampleProduct_def)
  have n: "\<not> orderWithProduct retentionDb 8"
    by (simp add: orderWithProduct_def retentionDb_def sampleOrderDoc_def
          orderData_def sampleOrder_def sampleItem_def)
  from retention_touches_only_candidates[of 8 100 retentionDb "quietEnv noPages"] c
  have "productsWithId (snd (cleanupOldOrders (quietEnv noPages) 100 retentionDb)) 8 = productsWithId retentionDb 8"
    by simp
  with c b n show ?thesis by blast
qed

text \<open>
  C5, as the code has it. Let a sync pass return, let the remote serve the same pages
  to a second pass and answer a request for a product with the record of that
  identifier, let every store call have the outcome it had, and let no two orders of
  the store carry the same identifier. Then the second pass returns the same result,
  leaves the products untouched and adds no order, and the orders stand where they
  stood. An order that no fetched record wrote is the same document. An order that a
  fetched record wrote has the same \<^verbatim>\<open>_id\<close>, the same \<^verbatim>\<open>createdAt\<close> and the same
  paths, \<^verbatim>\<open>last_modified\<close> among them; what the store itself makes at each write is
  new: its \<^verbatim>\<open>updatedAt\<close> is the time of a write of the second pass, and its billing
  address, shipping address and line items carry \<^verbatim>\<open>_id\<close>s that the second pass
  generated.
\<close>

theorem second_sync_renews_only_store_stamps:
  assumes "syncOrders env a st = Some (r1, st1, rs1)"
    and "\<forall>p. getOrders env p perPage a' = getOrders env p perPage a"
    and "\<forall>j w. getProduct env j = Inr w \<longrightarrow> id_p w = j"
    and "distinct (orderIds st)"
  shows "\<exists>pgs fin st2 rs2.
           walk env a 1 pgs fin \<and>
           syncOrders env a' st1 = Some (r1, st2, rs2) \<and>
           products st2 = products st1 \<and>
           list_all2
             (\<lambda>d1 d2. if rewritten env (fetched pgs fin) (OrderData.wooCommerceId (IOrder.paths d1))
                       then restamped env st1 st2 d1 d2 else d2 = d1)
             (orders st1) (orders st2)"
proof -
  from syncOrders_applies[OF assms(1)] obtain pgs fin where
    w: "walk env a 1 pgs fin" and s1: "st1 = applyOrders env (fetched pgs fin) st" and
    r1: "r1 = (case fin of Inl c \<Rightarrow> Inl (FailedToFetchOrders c)
                | Inr b \<Rightarrow> Inr (length (filter (upsertOk env) (fetched pgs fin)),
                               length (filter (\<lambda>w. \<not> upsertOk env w) (fetched pgs fin))))"
    by blast
  from w assms(2) have w': "walk env a' 1 pgs fin"
    by (simp add: walk_def fullPages_def)
  from walk_result[OF w', of 0 0 st1 "[]"] obtain rs2 where
    "syncLoop env a' 1 0 0 st1 [] =
       Some ((case fin of Inl c \<Rightarrow> Inl (FailedToFetchOrders c)
              | Inr b \<Rightarrow> Inr (0 + length (filter (upsertOk env) (fetched pgs fin)),
                             0 + length (filter (\<lambda>w. \<not> upsertOk env w) (fetched pgs fin)))),
             applyOrders env (fetched pgs fin) st1, [] @ rs2)"
    by blast
  then have 2: "syncOrders env a' st1 = Some (r1, applyOrders env (fetched pgs fin) st1, rs2)"
    by (simp add: syncOrders_def r1 split: sum.splits)
  from applyOrders_twice[OF assms(3,4), of "fetched pgs fin"] have
    "products (applyOrders env (fetched pgs fin) st1) = products st1 \<and>
     list_all2
       (\<lambda>d1 d2. if rewritten env (fetched pgs fin) (OrderData.wooCommerceId (IOrder.paths d1))
                 then restamped env st1 (applyOrders env (fetched pgs fin) st1) d1 d2 else d2 = d1)
       (orders st1) (orders (applyOrders env (fetched pgs fin) st1))"
    unfolding s1 .
  with w 2 show ?thesis by blast
qed

text \<open>
  C5, as it is stated, fails: the second pass over the same remote data writes the
  order again, and the store sets \<^verbatim>\<open>updatedAt\<close> of its document to the time of that
  write and gives its embedded subdocuments new \<^verbatim>\<open>_id\<close>s, so the store after the
  second pass is not the store after the first.
\<close>

theorem second_sync_same_store_counterexample:
  "syncOrders (quietEnv onePage) [] emptyDb =
     Some (Inr (1, 0), afterFirstSync, [GetOrders 1 100 [], GetProduct 7]) \<and>
   syncOrders (quietEnv onePage) [] afterFirstSync =
     Some (Inr (1, 0), afterSecondSync, [GetOrders 1 100 []]) \<and>
   map IOrder.updatedAt (orders afterFirstSync) = [0] \<and>
   map IOrder.updatedAt (orders afterSecondSync) = [2] \<and>
   map line_item_ids (orders afterFirstSync) = [[3]] \<and>
   map line_item_ids (orders afterSecondSync) = [[8]] \<and>
   afterSecondSync \<noteq> afterFirstSync"
proof -
  have t: "map IOrder.updatedAt (orders afterFirstSync) = [0]"
      "map IOrder.updatedAt (orders afterSecondSync) = [2]"
      "map line_item_ids (orders afterFirstSync) = [[3]]"
      "map line_item_ids (orders afterSecondSync) = [[8]]"
    by (simp_all add: afterFirstSync_def afterSecondSync_def)
  then have "orders afterSecondSync \<noteq> orders afterFirstSync" by auto
  then have "afterSecondSync \<noteq> afterFirstSync" by auto
  with onePage_two_syncs t show ?thesis by blast
qed

theorem second_sync_renews_only_store_stamps_witness:
  "syncOrders (quietEnv onePage) [] emptyDb =
     Some (Inr (1, 0), afterFirstSync, [GetOrders 1 100 [], GetProduct 7]) \<and>
   (\<forall>p. getOrders (quietEnv onePage) p perPage ''later'' = getOrders (quietEnv onePage) p perPage []) \<and>
   (\<forall>j. getProduct (quietEnv onePage) j = Inr (sampleProduct j)) \<and>
   (\<forall>j. id_p (sampleProduct j) = j) \<and>
   distinct (orderIds emptyDb) \<and>
   (\<exists>pgs fin st2 rs2.
      walk (quietEnv onePage) [] 1 pgs fin \<and>
      syncOrders (quietEnv onePage) ''later'' afterFirstSync = Some (Inr (1, 0), st2, rs2) \<and>
      products st2 = products afterFirstSync \<and>
      list_all2
        (\<lambda>d1 d2. if rewritten (quietEnv onePage) (fetched pgs fin) (OrderData.wooCommerceId (IOrder.paths d1))
                  then restamped (quietEnv onePage) afterFirstSync st2 d1 d2 else d2 = d1)
        (orders afterFirstSync) (orders st2))"
proof -
  have 1: "syncOrders (quietEnv onePage) [] emptyDb =
     Some (Inr (1, 0), afterFirstSync, [GetOrders 1 100 [], GetProduct 7])"
    using onePage_two_syncs by blast
  have 2: "\<forall>p. getOrders (quietEnv onePage) p perPage ''later'' = getOrders (quietEnv onePage) p perPage []"
    by (simp add: quietEnv_def)
  have 3: "\<forall>j. getProduct (quietEnv onePage) j = Inr (sampleProduct j)" "\<forall>j. id_p (sampleProduct j) = j"
    by (simp_all add: quietEnv_def sampleProduct_def)
  then have i3: "\<forall>j w. getProduct (quietEnv onePage) j = Inr w \<longrightarrow> id_p w = j"
    by auto
  have 4: "distinct (orderIds emptyDb)"
    by (simp add: orderIds_def emptyDb_def)
  from second_sync_renews_only_store_stamps[OF 1 2 i3 4] 1 2 3 4 show ?thesis by blast
qed

end
